theory Spec2Isabelle
  imports Complex_Main
begin

section \<open>JavaScript numbers and values\<close>

text \<open>
  A JavaScript number is a finite value, one of the two infinities, or NaN. Finite
  doubles are idealised as reals: rounding to 53 bits, overflow of a finite result to
  an infinity and the sign of zero are not represented. The special values follow
  IEEE 754 as the language applies it.
\<close>

datatype jsnum = Fin real | PosInf | NegInf | NaN

fun isNaN :: "jsnum \<Rightarrow> bool" where
  "isNaN NaN = True"
| "isNaN _ = False"

fun isFinite :: "jsnum \<Rightarrow> bool" where
  "isFinite (Fin _) = True"
| "isFinite _ = False"

fun jneg :: "jsnum \<Rightarrow> jsnum" where
  "jneg (Fin a) = Fin (- a)"
| "jneg PosInf = NegInf"
| "jneg NegInf = PosInf"
| "jneg NaN = NaN"

text \<open>\<open>a + b\<close> on numbers.\<close>

fun jadd :: "jsnum \<Rightarrow> jsnum \<Rightarrow> jsnum" where
  "jadd NaN _ = NaN"
| "jadd _ NaN = NaN"
| "jadd (Fin a) (Fin b) = Fin (a + b)"
| "jadd PosInf NegInf = NaN"
| "jadd NegInf PosInf = NaN"
| "jadd PosInf _ = PosInf"
| "jadd NegInf _ = NegInf"
| "jadd (Fin _) PosInf = PosInf"
| "jadd (Fin _) NegInf = NegInf"

text \<open>\<open>a - b\<close> on numbers.\<close>

definition jsub :: "jsnum \<Rightarrow> jsnum \<Rightarrow> jsnum" where
  "jsub a b = jadd a (jneg b)"

text \<open>The infinity whose sign is that of a non-zero real.\<close>

definition signedInf :: "real \<Rightarrow> jsnum" where
  "signedInf s = (if 0 < s then PosInf else NegInf)"

text \<open>\<open>a * b\<close> on numbers: an infinity times zero is NaN.\<close>

fun jmul :: "jsnum \<Rightarrow> jsnum \<Rightarrow> jsnum" where
  "jmul NaN _ = NaN"
| "jmul _ NaN = NaN"
| "jmul (Fin a) (Fin b) = Fin (a * b)"
| "jmul PosInf (Fin b) = (if b = 0 then NaN else signedInf b)"
| "jmul NegInf (Fin b) = (if b = 0 then NaN else signedInf (- b))"
| "jmul (Fin a) PosInf = (if a = 0 then NaN else signedInf a)"
| "jmul (Fin a) NegInf = (if a = 0 then NaN else signedInf (- a))"
| "jmul PosInf PosInf = PosInf"
| "jmul NegInf NegInf = PosInf"
| "jmul PosInf NegInf = NegInf"
| "jmul NegInf PosInf = NegInf"

text \<open>
  \<open>a / b\<close> on numbers. Division never raises: a non-zero finite value over zero is an
  infinity (zero is read as \<open>+0\<close>), zero over zero and infinity over infinity are NaN.
\<close>

fun jdiv :: "jsnum \<Rightarrow> jsnum \<Rightarrow> jsnum" where
  "jdiv NaN _ = NaN"
| "jdiv _ NaN = NaN"
| "jdiv (Fin a) (Fin b) =
     (if b = 0 then (if a = 0 then NaN else signedInf a) else Fin (a / b))"
| "jdiv (Fin _) PosInf = Fin 0"
| "jdiv (Fin _) NegInf = Fin 0"
| "jdiv PosInf (Fin b) = (if 0 \<le> b then PosInf else NegInf)"
| "jdiv NegInf (Fin b) = (if 0 \<le> b then NegInf else PosInf)"
| "jdiv PosInf _ = NaN"
| "jdiv NegInf _ = NaN"

text \<open>\<open>a < b\<close> on numbers: false as soon as one side is NaN.\<close>

fun jlt :: "jsnum \<Rightarrow> jsnum \<Rightarrow> bool" where
  "jlt NaN _ = False"
| "jlt _ NaN = False"
| "jlt (Fin a) (Fin b) = (a < b)"
| "jlt NegInf NegInf = False"
| "jlt NegInf _ = True"
| "jlt PosInf _ = False"
| "jlt (Fin _) PosInf = True"
| "jlt (Fin _) NegInf = False"

text \<open>\<open>a > b\<close> on numbers.\<close>

definition jgt :: "jsnum \<Rightarrow> jsnum \<Rightarrow> bool" where
  "jgt a b = jlt b a"

text \<open>
  A runtime value, as far as the rows of a sheet hold them: \<open>undefined\<close>, \<open>null\<close>,
  a boolean, a number, a string, or a \<open>Date\<close> object (its identity and its time
  value in milliseconds, NaN for an invalid date).
\<close>

datatype jsval =
    VUndefined
  | VNull
  | VBool bool
  | VNum jsnum
  | VStr string
  | VDate nat jsnum


text \<open>\<open>typeof v === 'string'\<close>.\<close>

fun isString :: "jsval \<Rightarrow> bool" where
  "isString (VStr _) = True"
| "isString _ = False"

text \<open>Truthiness, as \<open>if (v)\<close>, \<open>!v\<close> and \<open>v || w\<close> test it.\<close>

fun truthy :: "jsval \<Rightarrow> bool" where
  "truthy VUndefined = False"
| "truthy VNull = False"
| "truthy (VBool b) = b"
| "truthy (VNum n) = (n \<noteq> NaN \<and> n \<noteq> Fin 0)"
| "truthy (VStr s) = (s \<noteq> [])"
| "truthy (VDate _ _) = True"

text \<open>\<open>a === b\<close>: NaN differs from itself, objects are compared by identity.\<close>

fun strictEq :: "jsval \<Rightarrow> jsval \<Rightarrow> bool" where
  "strictEq VUndefined VUndefined = True"
| "strictEq VNull VNull = True"
| "strictEq (VBool a) (VBool b) = (a = b)"
| "strictEq (VNum a) (VNum b) = (a = b \<and> a \<noteq> NaN)"
| "strictEq (VStr a) (VStr b) = (a = b)"
| "strictEq (VDate i _) (VDate j _) = (i = j)"
| "strictEq _ _ = False"

section \<open>Strings: \<open>split\<close>, \<open>parseInt\<close>, \<open>parseFloat\<close>\<close>

text \<open>
  Strings are lists of 8-bit characters, one per UTF-16 code unit below 256; code units
  above that do not occur in the texts handled here.
\<close>

definition isDigit :: "char \<Rightarrow> bool" where
  "isDigit c = (48 \<le> (of_char c :: nat) \<and> (of_char c :: nat) \<le> 57)"

definition digitVal :: "char \<Rightarrow> nat" where
  "digitVal c = of_char c - 48"

text \<open>The value of a string of decimal digits.\<close>

definition digitsVal :: "string \<Rightarrow> nat" where
  "digitsVal ds = foldl (\<lambda>a c. 10 * a + digitVal c) 0 ds"

text \<open>White space that \<open>parseInt\<close> and \<open>parseFloat\<close> skip: TAB, LF, VT, FF, CR, SP, NBSP.\<close>

definition isStrWhiteSpace :: "char \<Rightarrow> bool" where
  "isStrWhiteSpace c = ((of_char c :: nat) \<in> {9, 10, 11, 12, 13, 32, 160})"

text \<open>An optional leading sign and the rest of the text.\<close>

fun takeSign :: "string \<Rightarrow> real \<times> string" where
  "takeSign [] = (1, [])"
| "takeSign (c # cs) =
     (if c = CHR ''+'' then (1, cs) else if c = CHR ''-'' then (- 1, cs) else (1, c # cs))"

text \<open>
  The factor of an exponent part \<open>e\<close>, \<open>E\<close> with optional sign and at least one digit; a
  malformed exponent is not part of the number and the factor is 1.
\<close>

definition exponentFactor :: "string \<Rightarrow> real" where
  "exponentFactor r =
     (case r of
        [] \<Rightarrow> 1
      | e # rest \<Rightarrow>
          if e = CHR ''e'' \<or> e = CHR ''E'' then
            (let (sg, ds) = takeSign rest; digs = takeWhile isDigit ds
             in if digs = [] then 1
                else if sg < 0 then 1 / 10 ^ digitsVal digs else 10 ^ digitsVal digs)
          else 1)"

text \<open>
  \<open>parseFloat(s)\<close>: skip leading white space, read the longest prefix that is a decimal
  literal (\<open>Infinity\<close>, or digits with an optional fraction and exponent, with an
  optional sign), ignore what follows; NaN when there is no such prefix.
\<close>

definition parseFloat :: "string \<Rightarrow> jsnum" where
  "parseFloat s =
     (let (sg, u) = takeSign (dropWhile isStrWhiteSpace s)
      in if take 8 u = ''Infinity'' then (if sg < 0 then NegInf else PosInf)
         else
           (let ip = takeWhile isDigit u;
                r1 = dropWhile isDigit u;
                hasDot = (r1 \<noteq> [] \<and> hd r1 = CHR ''.'');
                fp = (if hasDot then takeWhile isDigit (tl r1) else []);
                r2 = (if hasDot then dropWhile isDigit (tl r1) else r1)
            in if ip = [] \<and> fp = [] then NaN
               else Fin (sg * (real (digitsVal ip) + real (digitsVal fp) / 10 ^ length fp)
                          * exponentFactor r2)))"

text \<open>
  \<open>parseInt(s, 10)\<close>: skip leading white space, an optional sign, then the longest run
  of decimal digits; NaN when there is no digit.
\<close>

definition parseInt10 :: "string \<Rightarrow> jsnum" where
  "parseInt10 s =
     (let (sg, u) = takeSign (dropWhile isStrWhiteSpace s);
          digs = takeWhile isDigit u
      in if digs = [] then NaN else Fin (sg * real (digitsVal digs)))"

text \<open>\<open>s.split(c)\<close> for a one-character separator; the empty string gives one empty segment.\<close>

fun splitOn :: "char \<Rightarrow> string \<Rightarrow> string list" where
  "splitOn c [] = [[]]"
| "splitOn c (x # xs) =
     (if x = c then [] # splitOn c xs
      else (case splitOn c xs of
              [] \<Rightarrow> [[x]]
            | p # ps \<Rightarrow> (x # p) # ps))"

section \<open>Calendar arithmetic of \<open>Date\<close>\<close>

definition msPerDay :: int where
  "msPerDay = 86400000"

text \<open>Day number of 1 January of a year, counted from 1 January 1970.\<close>

definition dayFromYear :: "int \<Rightarrow> int" where
  "dayFromYear y =
     365 * (y - 1970) + (y - 1969) div 4 - (y - 1901) div 100 + (y - 1601) div 400"

definition inLeapYear :: "int \<Rightarrow> bool" where
  "inLeapYear y = (y mod 4 = 0 \<and> (y mod 100 \<noteq> 0 \<or> y mod 400 = 0))"

text \<open>Days of the year before the first of month \<open>m\<close> (0 is January).\<close>

definition monthStart :: "int \<Rightarrow> nat \<Rightarrow> int" where
  "monthStart y m =
     [0, 31, 59, 90, 120, 151, 181, 212, 243, 273, 304, 334] ! m
       + (if inLeapYear y \<and> 2 \<le> m then 1 else 0)"

text \<open>
  \<open>MakeDay(year, month, date)\<close> on integers: months outside 0..11 carry into the year,
  the day of the month is added as an offset and may run over.
\<close>

definition makeDay :: "int \<Rightarrow> int \<Rightarrow> int \<Rightarrow> int" where
  "makeDay y m dt = dayFromYear (y + m div 12) + monthStart (y + m div 12) (nat (m mod 12)) + dt - 1"

text \<open>Truncation of a real toward zero.\<close>

definition truncR :: "real \<Rightarrow> int" where
  "truncR x = (if 0 \<le> x then \<lfloor>x\<rfloor> else \<lceil>x\<rceil>)"

text \<open>\<open>TimeClip\<close>: a time value beyond 8.64e15 ms from the epoch is NaN.\<close>

definition timeClip :: "int \<Rightarrow> jsnum" where
  "timeClip t = (if \<bar>t\<bar> > 8640000000000000 then NaN else Fin (of_int t))"

text \<open>
  \<open>new Date(Date.UTC(year, month, day)).getTime()\<close>: NaN as soon as one argument is not
  finite; a year from 0 to 99 means 1900 + year.
\<close>

fun dateUTC :: "jsnum \<Rightarrow> jsnum \<Rightarrow> jsnum \<Rightarrow> jsnum" where
  "dateUTC (Fin y) (Fin m) (Fin d) =
     (let yi = truncR y;
          yr = (if 0 \<le> yi \<and> yi \<le> 99 then 1900 + yi else yi)
      in timeClip (makeDay yr (truncR m) (truncR d) * msPerDay))"
| "dateUTC _ _ _ = NaN"

text \<open>
  Year, month (0 is January) and day of the month of a day number: the inverse of
  \<open>makeDay\<close>, by the 400-year cycle counted from 1 March 0000.
\<close>

definition civilFromDays :: "int \<Rightarrow> int \<times> nat \<times> int" where
  "civilFromDays z0 =
     (let z = z0 + 719468;
          era = z div 146097;
          doe = z - era * 146097;
          yoe = (doe - doe div 1460 + doe div 36524 - doe div 146096) div 365;
          doy = doe - (365 * yoe + yoe div 4 - yoe div 100);
          mp = (5 * doy + 2) div 153;
          d = doy - (153 * mp + 2) div 5 + 1;
          m = (if mp < 10 then mp + 2 else mp - 10);
          y = yoe + era * 400 + (if m \<le> 1 then 1 else 0)
      in (y, nat m, d))"

text \<open>Day of the week of a day number, 0 is Sunday.\<close>

definition weekDay :: "int \<Rightarrow> nat" where
  "weekDay day = nat ((day + 4) mod 7)"

definition monthNames :: "string list" where
  "monthNames = [''Jan'', ''Feb'', ''Mar'', ''Apr'', ''May'', ''Jun'',
                 ''Jul'', ''Aug'', ''Sep'', ''Oct'', ''Nov'', ''Dec'']"

definition dayNames :: "string list" where
  "dayNames = [''Sun'', ''Mon'', ''Tue'', ''Wed'', ''Thu'', ''Fri'', ''Sat'']"

section \<open>\<open>safeFloat\<close>\<close>

text \<open>
  \<open>parseFloat(val)\<close> for a value of any type: the value is turned into text first. The
  text of \<open>undefined\<close>, \<open>null\<close> and a boolean is its name, the text of a \<open>Date\<close> is
  \<open>Invalid Date\<close> or starts with the name of the weekday (only that start is kept here,
  as no number can be read from it), and the decimal text of a number reads back as that
  number.
\<close>

fun parseFloatOf :: "jsval \<Rightarrow> jsnum" where
  "parseFloatOf (VStr s) = parseFloat s"
| "parseFloatOf (VNum n) = n"
| "parseFloatOf VUndefined = parseFloat ''undefined''"
| "parseFloatOf VNull = parseFloat ''null''"
| "parseFloatOf (VBool b) = parseFloat (if b then ''true'' else ''false'')"
| "parseFloatOf (VDate _ (Fin t)) = parseFloat (dayNames ! weekDay (\<lfloor>t\<rfloor> div msPerDay))"
| "parseFloatOf (VDate _ _) = parseFloat ''Invalid Date''"

text \<open>
  \<^verbatim>\<open>
  const safeFloat = (val: any): number => {
    if (typeof val === 'number') return val;
    const parsed = parseFloat(val);
    return isNaN(parsed) ? 0 : parsed;
  };
  \<close>
\<close>

definition safeFloat :: "jsval \<Rightarrow> jsnum" where
  "safeFloat val =
     (case val of
        VNum n \<Rightarrow> n
      | _ \<Rightarrow> (let parsed = parseFloatOf val
              in if isNaN parsed then Fin 0 else parsed))"

section \<open>The metric processor\<close>

text \<open>The constants of \<open>CONVERSIONS\<close> and \<open>EMISSION_FACTORS\<close> that the processor uses.\<close>

definition SCM_TO_MMBTU :: jsnum where
  "SCM_TO_MMBTU = Fin (396 / 10000)"

definition KL_TO_MMBTU_HSD :: jsnum where
  "KL_TO_MMBTU_HSD = Fin (358 / 10)"

definition BARREL_TO_MMBTU_OIL :: jsnum where
  "BARREL_TO_MMBTU_OIL = Fin (58 / 10)"

definition GAS_KGCO2_PER_SCM :: jsnum where
  "GAS_KGCO2_PER_SCM = Fin (188 / 100)"

definition HSD_KGCO2_PER_KL :: jsnum where
  "HSD_KGCO2_PER_KL = Fin 2650"

definition GRID_ELEC_KGCO2_PER_KWH :: jsnum where
  "GRID_ELEC_KGCO2_PER_KWH = Fin (82 / 100)"

text \<open>
  A row as the sheet reader hands it over: an object read by header text, where a
  header that is absent reads as \<open>undefined\<close>.
\<close>

type_synonym row = "string \<Rightarrow> jsval"

record ProcessedPlantData =
  plantName :: jsval
  date :: jsval
  gasFlared :: jsnum
  gasBoiler :: jsnum
  gasFurnace :: jsnum
  gasGDU :: jsnum
  gasEngine :: jsnum
  gasCompressor :: jsnum
  gasTotalInternal :: jsnum
  elecGCS :: jsnum
  elecETP :: jsnum
  elecRefinery :: jsnum
  elecTotalConsumed :: jsnum
  waterGCS :: jsnum
  waterRefinery :: jsnum
  waterTotal :: jsnum
  elecGenerated :: jsnum
  hsdPumps :: jsnum
  hsdGensets :: jsnum
  hsdTotalConsumed :: jsnum
  hsdIssuedFire :: jsnum
  hsdIssuedPSA :: jsnum
  hsdIssuedOthers :: jsnum
  hsdTotalIssued :: jsnum
  energyFromGasMMBTU :: jsnum
  energyFromHSDMMBTU :: jsnum
  totalEnergyExpendedMMBTU :: jsnum
  gasProduced :: jsnum
  oilProduced :: jsnum
  energyFromGasProdMMBTU :: jsnum
  energyFromOilProdMMBTU :: jsnum
  totalEnergyProducedMMBTU :: jsnum
  elecImported :: jsnum
  ghgScope1 :: jsnum
  ghgScope2 :: jsnum
  ghgTotal :: jsnum
  expectedEnergyMMBTU :: jsnum
  sec :: jsnum
  eii :: jsnum
  emissionIntensity :: jsnum

text \<open>\<open>a || b\<close>.\<close>

definition jsOr :: "jsval \<Rightarrow> jsval \<Rightarrow> jsval" where
  "jsOr a b = (if truthy a then a else b)"

text \<open>The cubic-metre unit of the two water headers ends in the superscript three, code unit 179.\<close>

definition hdrWaterGCS :: string where
  "hdrWaterGCS = ''Water Consumption - GCS (m'' @ [char_of (179 :: nat)] @ '')''"

definition hdrWaterRefinery :: string where
  "hdrWaterRefinery = ''Water Consumption - Refinery (m'' @ [char_of (179 :: nat)] @ '')''"

definition processPlantData :: "row \<Rightarrow> ProcessedPlantData" where
  "processPlantData raw =
     (let gasFlared = safeFloat (raw ''Gas Flared (SCM)'');
          gasBoiler = safeFloat (raw ''Gas Consumption - Boiler (SCM)'');
          gasFurnace = safeFloat (raw ''Gas Consumption - Furnace (SCM)'');
          gasGDU = safeFloat (raw ''Gas Consumption - GDU (SCM)'');
          gasEngine = safeFloat (raw ''Gas Consumption - Engine (SCM)'');
          gasCompressor = safeFloat (raw ''Gas Consumption - Package Gas Compressor (SCM)'');
          gasTotalInternal =
            jadd (jadd (jadd (jadd gasBoiler gasFurnace) gasGDU) gasEngine) gasCompressor;
          elecGCS = safeFloat (raw ''Electrical Consumption - GCS (kWh)'');
          elecETP = safeFloat (raw ''Electrical Consumption - ETP (kWh)'');
          elecRefinery = safeFloat (raw ''Electrical Consumption - Refinery (kWh)'');
          elecTotalConsumed = jadd (jadd elecGCS elecETP) elecRefinery;
          waterGCS = safeFloat (raw hdrWaterGCS);
          waterRefinery = safeFloat (raw hdrWaterRefinery);
          waterTotal = jadd waterGCS waterRefinery;
          elecGenerated = safeFloat (raw ''Electrical Generated (kWh)'');
          hsdPumps = safeFloat (raw ''HSD Consumption - Pumps (KL)'');
          hsdGensets = safeFloat (raw ''HSD Consumption - Emergency Diesel Gensets (KL)'');
          hsdTotalConsumed = jadd hsdPumps hsdGensets;
          hsdIssuedFire = safeFloat (raw ''HSD Issued - Fire Section (KL)'');
          hsdIssuedPSA = safeFloat (raw ''HSD Issued - PSA (KL)'');
          hsdIssuedOthers = safeFloat (raw ''HSD Issued - Others (KL)'');
          hsdTotalIssued = jadd (jadd hsdIssuedFire hsdIssuedPSA) hsdIssuedOthers;
          energyFromGasMMBTU = jmul gasTotalInternal SCM_TO_MMBTU;
          energyFromHSDMMBTU = jmul hsdTotalConsumed KL_TO_MMBTU_HSD;
          totalEnergyExpendedMMBTU = jadd energyFromGasMMBTU energyFromHSDMMBTU;
          gasProduced = safeFloat (raw ''Gas Production (SCM)'');
          oilProduced = safeFloat (raw ''Oil Production (Barrels)'');
          energyFromGasProdMMBTU = jmul gasProduced SCM_TO_MMBTU;
          energyFromOilProdMMBTU = jmul oilProduced BARREL_TO_MMBTU_OIL;
          totalEnergyProducedMMBTU = jadd energyFromGasProdMMBTU energyFromOilProdMMBTU;
          elecImported = safeFloat (raw ''APSEB Electricity Imported (kWh)'');
          scope1Tonnes =
            jdiv (jadd (jmul gasTotalInternal GAS_KGCO2_PER_SCM)
                       (jmul hsdTotalConsumed HSD_KGCO2_PER_KL)) (Fin 1000);
          scope2Tonnes = jdiv (jmul elecImported GRID_ELEC_KGCO2_PER_KWH) (Fin 1000);
          ghgTotal = jadd scope1Tonnes scope2Tonnes;
          expectedEnergyMMBTU = safeFloat (raw ''Expected Energy Consumption (MMBTU)'');
          sec = (if jgt totalEnergyProducedMMBTU (Fin 0)
                 then jdiv energyFromGasMMBTU totalEnergyProducedMMBTU else Fin 0);
          eii = (if jgt expectedEnergyMMBTU (Fin 0)
                 then jmul (jdiv totalEnergyExpendedMMBTU expectedEnergyMMBTU) (Fin 100)
                 else Fin 0);
          emissionIntensity =
            (if jgt gasProduced (Fin 0) then jdiv ghgTotal gasProduced else Fin 0)
      in \<lparr> plantName = jsOr (raw ''Plant Name'') (VStr ''Unknown Plant''),
           date = jsOr (raw ''Date'') (VStr ''Unknown Date''),
           gasFlared = gasFlared,
           gasBoiler = gasBoiler, gasFurnace = gasFurnace, gasGDU = gasGDU,
           gasEngine = gasEngine, gasCompressor = gasCompressor,
           gasTotalInternal = gasTotalInternal,
           elecGCS = elecGCS, elecETP = elecETP, elecRefinery = elecRefinery,
           elecTotalConsumed = elecTotalConsumed,
           waterGCS = waterGCS, waterRefinery = waterRefinery, waterTotal = waterTotal,
           elecGenerated = elecGenerated,
           hsdPumps = hsdPumps, hsdGensets = hsdGensets, hsdTotalConsumed = hsdTotalConsumed,
           hsdIssuedFire = hsdIssuedFire, hsdIssuedPSA = hsdIssuedPSA,
           hsdIssuedOthers = hsdIssuedOthers, hsdTotalIssued = hsdTotalIssued,
           energyFromGasMMBTU = energyFromGasMMBTU, energyFromHSDMMBTU = energyFromHSDMMBTU,
           totalEnergyExpendedMMBTU = totalEnergyExpendedMMBTU,
           gasProduced = gasProduced, oilProduced = oilProduced,
           energyFromGasProdMMBTU = energyFromGasProdMMBTU,
           energyFromOilProdMMBTU = energyFromOilProdMMBTU,
           totalEnergyProducedMMBTU = totalEnergyProducedMMBTU,
           elecImported = elecImported, ghgScope1 = scope1Tonnes, ghgScope2 = scope2Tonnes,
           ghgTotal = ghgTotal,
           expectedEnergyMMBTU = expectedEnergyMMBTU,
           sec = sec,
           eii = eii,
           emissionIntensity = emissionIntensity \<rparr>)"

definition getBlankPlantData :: ProcessedPlantData where
  "getBlankPlantData =
     \<lparr> plantName = VStr ''Select Plant'', date = VStr ''Select Date'',
       gasFlared = Fin 0,
       gasBoiler = Fin 0, gasFurnace = Fin 0, gasGDU = Fin 0, gasEngine = Fin 0,
       gasCompressor = Fin 0, gasTotalInternal = Fin 0,
       elecGCS = Fin 0, elecETP = Fin 0, elecRefinery = Fin 0, elecTotalConsumed = Fin 0,
       waterGCS = Fin 0, waterRefinery = Fin 0, waterTotal = Fin 0,
       elecGenerated = Fin 0,
       hsdPumps = Fin 0, hsdGensets = Fin 0, hsdTotalConsumed = Fin 0,
       hsdIssuedFire = Fin 0, hsdIssuedPSA = Fin 0, hsdIssuedOthers = Fin 0,
       hsdTotalIssued = Fin 0,
       energyFromGasMMBTU = Fin 0, energyFromHSDMMBTU = Fin 0, totalEnergyExpendedMMBTU = Fin 0,
       gasProduced = Fin 0, oilProduced = Fin 0, energyFromGasProdMMBTU = Fin 0,
       energyFromOilProdMMBTU = Fin 0, totalEnergyProducedMMBTU = Fin 0,
       elecImported = Fin 0, ghgScope1 = Fin 0, ghgScope2 = Fin 0, ghgTotal = Fin 0,
       expectedEnergyMMBTU = Fin 0,
       sec = Fin 0, eii = Fin 0, emissionIntensity = Fin 0 \<rparr>"

section \<open>The date normaliser of \<open>readDataFile\<close>\<close>

text \<open>Decimal text of a number, as \<open>toString()\<close> gives it for an integer.\<close>

fun showNat :: "nat \<Rightarrow> string" where
  "showNat n =
     (if n < 10 then [char_of (48 + n)] else showNat (n div 10) @ [char_of (48 + n mod 10)])"

declare showNat.simps [simp del]

definition showInt :: "int \<Rightarrow> string" where
  "showInt i = (if i < 0 then CHR ''-'' # showNat (nat (- i)) else showNat (nat i))"

text \<open>\<open>s.padStart(2, '0')\<close> and \<open>s.slice(-2)\<close>.\<close>

definition padStart2 :: "string \<Rightarrow> string" where
  "padStart2 s = replicate (2 - length s) (CHR ''0'') @ s"

definition sliceLast2 :: "string \<Rightarrow> string" where
  "sliceLast2 s = drop (length s - 2) s"

text \<open>\<open>Math.round\<close>: the nearest integer, a tie going up.\<close>

fun mathRound :: "jsnum \<Rightarrow> jsnum" where
  "mathRound (Fin x) = Fin (of_int \<lfloor>x + 1 / 2\<rfloor>)"
| "mathRound n = n"

text \<open>The time value of \<open>new Date(v)\<close> for a number \<open>v\<close>.\<close>

fun newDate :: "jsnum \<Rightarrow> jsnum" where
  "newDate (Fin x) = timeClip (truncR x)"
| "newDate _ = NaN"

text \<open>
  \<^verbatim>\<open>
  const day = d.getDate().toString().padStart(2, '0');
  const month = d.toLocaleString('en-US', { month: 'short' });
  const year = d.getFullYear().toString().slice(-2);
  `${day}-${month}-${year}`
  \<close>
  The three getters read the date in local time; \<open>tz\<close> is the offset of local time
  from UTC in minutes, taken as constant. On an invalid date the getters give NaN and
  the month text is \<open>Invalid Date\<close>.
\<close>

definition formatYMD :: "int \<times> nat \<times> int \<Rightarrow> string" where
  "formatYMD ymd =
     (case ymd of (y, m, d) \<Rightarrow>
        padStart2 (showInt d) @ ''-'' @ monthNames ! m @ ''-'' @ sliceLast2 (showInt y))"

definition localDay :: "int \<Rightarrow> real \<Rightarrow> int" where
  "localDay tz t = (\<lfloor>t\<rfloor> + tz * 60000) div msPerDay"

fun formatDate :: "int \<Rightarrow> jsnum \<Rightarrow> string" where
  "formatDate tz (Fin t) = formatYMD (civilFromDays (localDay tz t))"
| "formatDate tz _ = padStart2 ''NaN'' @ ''-'' @ ''Invalid Date'' @ ''-'' @ sliceLast2 ''NaN''"

definition twelveHours :: jsnum where
  "twelveHours = Fin (12 * 60 * 60 * 1000)"

text \<open>The moment a serial day count stands for, moved to noon.\<close>

definition serialMoment :: "jsnum \<Rightarrow> jsnum" where
  "serialMoment n =
     jadd (mathRound (jmul (jmul (jsub n (Fin 25569)) (Fin 86400)) (Fin 1000))) twelveHours"

text \<open>
  The callback \<open>readDataFile\<close> maps over the rows of the sheet: a \<open>Date\<close> object in the
  \<open>Date\<close> column is moved by 12 hours and formatted, a number above 30000 is read as
  a serial day count, anything else is left as it is.
\<close>

definition normalizeRow :: "int \<Rightarrow> row \<Rightarrow> row" where
  "normalizeRow tz r =
     (if truthy (r ''Date'') then
        (case r ''Date'' of
           VDate _ tv \<Rightarrow> r(''Date'' := VStr (formatDate tz (newDate (jadd tv twelveHours))))
         | VNum n \<Rightarrow>
             if jgt n (Fin 30000)
             then r(''Date'' := VStr (formatDate tz (newDate (serialMoment n))))
             else r
         | _ \<Rightarrow> r)
      else r)"

text \<open>
  What reading and decoding a file comes to: the reader fails, it yields no data, the
  decoder throws, or it yields the rows of the first sheet.
\<close>

datatype fileContent = ReaderError | NoData | ParseThrows | Sheet "row list"

datatype failure = Rejected | TypeError

text \<open>
  \<open>readDataFile\<close>: the promise is rejected only when the reader fails; when there is
  no data, and when decoding throws (the \<open>catch\<close> branch), it resolves to the empty list.
\<close>

fun readDataFile :: "int \<Rightarrow> fileContent \<Rightarrow> failure + row list" where
  "readDataFile tz ReaderError = Inl Rejected"
| "readDataFile tz NoData = Inr []"
| "readDataFile tz ParseThrows = Inr []"
| "readDataFile tz (Sheet rows) = Inr (map (normalizeRow tz) rows)"

section \<open>The sort key and the views of the dashboard\<close>

text \<open>
  Reading \<open>months[monthStr]\<close>: the table is an object literal, so besides its own twelve
  keys the names every object inherits are found too, with a function or object as
  value, which \<open>Date.UTC\<close> converts to NaN.
\<close>

definition inheritedNames :: "string list" where
  "inheritedNames =
     [''constructor'', ''toString'', ''toLocaleString'', ''valueOf'', ''hasOwnProperty'',
      ''isPrototypeOf'', ''propertyIsEnumerable'', ''__proto__'', ''__defineGetter__'',
      ''__defineSetter__'', ''__lookupGetter__'', ''__lookupSetter__'']"

definition months :: "(string \<times> nat) list" where
  "months =
     [(''Jan'', 0), (''Feb'', 1), (''Mar'', 2), (''Apr'', 3), (''May'', 4), (''Jun'', 5),
      (''Jul'', 6), (''Aug'', 7), (''Sep'', 8), (''Oct'', 9), (''Nov'', 10), (''Dec'', 11)]"

text \<open>\<open>months[monthStr] !== undefined ? months[monthStr] : 0\<close>, as a number.\<close>

definition monthOf :: "string \<Rightarrow> jsnum" where
  "monthOf monthStr =
     (case map_of months monthStr of
        Some k \<Rightarrow> Fin (real k)
      | None \<Rightarrow> if monthStr \<in> set inheritedNames then NaN else Fin 0)"

text \<open>
  \<^verbatim>\<open>
  const parseDateString = (dateStr: string) => {
      const parts = dateStr.split('-');
      if (parts.length !== 3) return 0;
      const day = parseInt(parts[0], 10);
      const monthStr = parts[1];
      const yearPart = parseInt(parts[2], 10);
      const year = 2000 + yearPart;
      ...
      const month = months[monthStr] !== undefined ? months[monthStr] : 0;
      return new Date(Date.UTC(year, month, day)).getTime();
  };
  \<close>
\<close>

definition parseDateString :: "string \<Rightarrow> jsnum" where
  "parseDateString dateStr =
     (case splitOn (CHR ''-'') dateStr of
        [p0, p1, p2] \<Rightarrow>
          (let day = parseInt10 p0;
               monthStr = p1;
               yearPart = parseInt10 p2;
               year = jadd (Fin 2000) yearPart;
               month = monthOf monthStr
           in dateUTC year month day)
      | _ \<Rightarrow> Fin 0)"

text \<open>Equality of the elements of a \<open>Set\<close>: objects by identity, NaN equal to itself.\<close>

fun sameValueZero :: "jsval \<Rightarrow> jsval \<Rightarrow> bool" where
  "sameValueZero (VDate i _) (VDate j _) = (i = j)"
| "sameValueZero a b = (a = b)"

text \<open>\<open>Array.from(new Set(xs))\<close>: the first occurrence of each element, in order.\<close>

fun uniq :: "jsval list \<Rightarrow> jsval list" where
  "uniq [] = []"
| "uniq (x # xs) = x # filter (\<lambda>y. \<not> sameValueZero x y) (uniq xs)"

text \<open>The key of an element of the date list; only strings have \<open>split\<close>.\<close>

fun keyOf :: "jsval \<Rightarrow> jsnum" where
  "keyOf (VStr s) = parseDateString s"
| "keyOf _ = NaN"

text \<open>The comparator \<open>(a, b) => parseDateString(a) - parseDateString(b)\<close>.\<close>

definition compareDates :: "jsval \<Rightarrow> jsval \<Rightarrow> jsnum" where
  "compareDates a b = jsub (keyOf a) (keyOf b)"

text \<open>
  \<open>dates.sort(compare)\<close>. The sort is stable and moves an element behind another one
  only when the comparator is positive (NaN counts as zero); insertion from the right
  does that. Elements that are \<open>undefined\<close> go last without being compared. With two or
  more elements to compare each one is handed to the comparator, which throws a
  \<open>TypeError\<close> on a value without \<open>split\<close>.
\<close>

fun insertDate :: "jsval \<Rightarrow> jsval list \<Rightarrow> jsval list" where
  "insertDate x [] = [x]"
| "insertDate x (y # ys) =
     (if jgt (compareDates x y) (Fin 0) then y # insertDate x ys else x # y # ys)"

definition sortDates :: "jsval list \<Rightarrow> failure + jsval list" where
  "sortDates xs =
     (let defined = filter (\<lambda>v. v \<noteq> VUndefined) xs;
          rest = filter (\<lambda>v. v = VUndefined) xs
      in if 2 \<le> length defined \<and> (\<exists>v \<in> set defined. \<not> isString v) then Inl TypeError
         else Inr (foldr insertDate defined [] @ rest))"

text \<open>The unique dates of the data, sorted by the key.\<close>

definition availableDates :: "ProcessedPlantData list \<Rightarrow> failure + jsval list" where
  "availableDates allData = sortDates (uniq (map date allData))"

text \<open>
  \<^verbatim>\<open>
  if (!selectedDate) return null;
  const validData = allData.filter(d => d.sec > 0 && d.date === selectedDate);
  if (validData.length === 0) return null;
  let min = validData[0]; let max = validData[0];
  for (const d of validData) {
      if (d.sec < min.sec) min = d;
      if (d.sec > max.sec) max = d;
  }
  return { min, max };
  \<close>
\<close>

definition validData :: "ProcessedPlantData list \<Rightarrow> jsval \<Rightarrow> ProcessedPlantData list" where
  "validData allData selectedDate =
     filter (\<lambda>d. jgt (sec d) (Fin 0) \<and> strictEq (date d) selectedDate) allData"

definition scanStep ::
  "ProcessedPlantData \<times> ProcessedPlantData \<Rightarrow> ProcessedPlantData
     \<Rightarrow> ProcessedPlantData \<times> ProcessedPlantData" where
  "scanStep mm d =
     (case mm of (mn, mx) \<Rightarrow>
        (let mn' = (if jlt (sec d) (sec mn) then d else mn);
             mx' = (if jgt (sec d) (sec mx) then d else mx)
         in (mn', mx')))"

definition secStats ::
  "ProcessedPlantData list \<Rightarrow> jsval \<Rightarrow> (ProcessedPlantData \<times> ProcessedPlantData) option" where
  "secStats allData selectedDate =
     (if \<not> truthy selectedDate then None
      else (case validData allData selectedDate of
              [] \<Rightarrow> None
            | v # vs \<Rightarrow> Some (foldl scanStep (v, v) (v # vs))))"

section \<open>The upload handler\<close>

record appState =
  allData :: "ProcessedPlantData list"
  selectedDate :: jsval
  selectedPlantName :: jsval
  alerts :: "string list"

definition uploadErrorNotice :: string where
  "uploadErrorNotice = ''Error reading file. Please ensure it is a valid Excel (.xlsx) or CSV file.''"

text \<open>\<open>processed.find(p => p.date === firstDate)?.plantName\<close>.\<close>

definition firstPlantOf :: "ProcessedPlantData list \<Rightarrow> jsval \<Rightarrow> jsval" where
  "firstPlantOf processed firstDate =
     (case find (\<lambda>p. strictEq (date p) firstDate) processed of
        None \<Rightarrow> VUndefined
      | Some p \<Rightarrow> plantName p)"

text \<open>
  \<open>handleFileUpload\<close>, with no file chosen (\<open>None\<close>) or a file and what reading it comes
  to. The data is stored as soon as \<open>readDataFile\<close> resolves; the \<open>catch\<close> branch, which
  raises the notice, is reached when the promise is rejected or when sorting the dates
  throws.
\<close>

definition handleFileUpload :: "int \<Rightarrow> appState \<Rightarrow> fileContent option \<Rightarrow> appState" where
  "handleFileUpload tz st file =
     (case file of
        None \<Rightarrow> st
      | Some content \<Rightarrow>
          (case readDataFile tz content of
             Inl _ \<Rightarrow> st\<lparr>alerts := alerts st @ [uploadErrorNotice]\<rparr>
           | Inr raw \<Rightarrow>
               (let processed = map processPlantData raw;
                    st1 = st\<lparr>allData := processed\<rparr>
                in if 0 < length processed then
                     (case sortDates (uniq (map date processed)) of
                        Inl _ \<Rightarrow> st1\<lparr>alerts := alerts st1 @ [uploadErrorNotice]\<rparr>
                      | Inr uniqueDates \<Rightarrow>
                          (let firstDate = (case uniqueDates of [] \<Rightarrow> VUndefined | d # _ \<Rightarrow> d);
                               st2 = st1\<lparr>selectedDate := firstDate\<rparr>;
                               firstPlant = firstPlantOf processed firstDate
                           in if truthy firstPlant then st2\<lparr>selectedPlantName := firstPlant\<rparr>
                              else st2))
                   else st1)))"

section \<open>Predicates used in the statements\<close>

text \<open>Each stored total is the sum of its parts, added in the order of the source.\<close>

definition sumInvariants :: "ProcessedPlantData \<Rightarrow> bool" where
  "sumInvariants p =
     (gasTotalInternal p =
        jadd (jadd (jadd (jadd (gasBoiler p) (gasFurnace p)) (gasGDU p)) (gasEngine p))
             (gasCompressor p)
      \<and> elecTotalConsumed p = jadd (jadd (elecGCS p) (elecETP p)) (elecRefinery p)
      \<and> waterTotal p = jadd (waterGCS p) (waterRefinery p)
      \<and> hsdTotalConsumed p = jadd (hsdPumps p) (hsdGensets p)
      \<and> hsdTotalIssued p = jadd (jadd (hsdIssuedFire p) (hsdIssuedPSA p)) (hsdIssuedOthers p))"




text \<open>
  Calendar dates of the years 2000 to 2099, the ones a two-digit year can name: year,
  month (0 is January) and day of the month. Their canonical text is \<open>formatYMD\<close>.
\<close>

definition daysInMonth :: "int \<Rightarrow> nat \<Rightarrow> int" where
  "daysInMonth y m =
     [31, if inLeapYear y then 29 else 28, 31, 30, 31, 30, 31, 31, 30, 31, 30, 31] ! m"

definition validDate :: "int \<times> nat \<times> int \<Rightarrow> bool" where
  "validDate ymd =
     (case ymd of (y, m, d) \<Rightarrow>
        2000 \<le> y \<and> y \<le> 2099 \<and> m < 12 \<and> 1 \<le> d \<and> d \<le> daysInMonth y m)"

text \<open>Calendar order.\<close>

definition earlier :: "int \<times> nat \<times> int \<Rightarrow> int \<times> nat \<times> int \<Rightarrow> bool" where
  "earlier a b =
     (case a of (y1, m1, d1) \<Rightarrow> case b of (y2, m2, d2) \<Rightarrow>
        y1 < y2 \<or> (y1 = y2 \<and> (m1 < m2 \<or> (m1 = m2 \<and> d1 < d2))))"

text \<open>Elements whose sort key is a finite number, and the order of their keys.\<close>

definition finiteKey :: "jsval \<Rightarrow> bool" where
  "finiteKey v = isFinite (keyOf v)"

definition keyLe :: "jsval \<Rightarrow> jsval \<Rightarrow> bool" where
  "keyLe u v = (\<not> jlt (keyOf v) (keyOf u))"

section \<open>Sample inputs\<close>

text \<open>A plant that burns gas and diesel and produces gas.\<close>

definition exampleRow :: row where
  "exampleRow =
     (\<lambda>_. VUndefined)
       (''Plant Name'' := VStr ''A'',
        ''Date'' := VStr ''01-Oct-25'',
        ''Gas Consumption - Boiler (SCM)'' := VNum (Fin 100),
        ''Gas Consumption - Furnace (SCM)'' := VNum (Fin 0),
        ''HSD Consumption - Pumps (KL)'' := VNum (Fin 10),
        ''HSD Consumption - Emergency Diesel Gensets (KL)'' := VNum (Fin 0),
        ''APSEB Electricity Imported (kWh)'' := VStr ''500'',
        ''Gas Production (SCM)'' := VNum (Fin 200),
        ''Oil Production (Barrels)'' := VStr [],
        ''Expected Energy Consumption (MMBTU)'' := VNum (Fin 50))"



text \<open>Five records on four dates, out of order.\<close>

definition sampleDates :: "(int \<times> nat \<times> int) list" where
  "sampleDates = [(2026, 9, 1), (2025, 9, 5), (2025, 10, 1), (2025, 9, 1), (2025, 9, 5)]"

definition sampleData :: "ProcessedPlantData list" where
  "sampleData = map (\<lambda>c. getBlankPlantData\<lparr>date := VStr (formatYMD c)\<rparr>) sampleDates"

text \<open>
  Records of three plants on one date, one of them without production, and of one
  plant without production on the next date.
\<close>

definition statRecord :: "string \<Rightarrow> string \<Rightarrow> real \<Rightarrow> ProcessedPlantData" where
  "statRecord name day s =
     getBlankPlantData\<lparr>plantName := VStr name, date := VStr day, sec := Fin s\<rparr>"

definition statsData :: "ProcessedPlantData list" where
  "statsData =
     [statRecord ''A'' ''01-Oct-25'' (1 / 2),
      statRecord ''B'' ''01-Oct-25'' 0,
      statRecord ''C'' ''01-Oct-25'' (1 / 5),
      statRecord ''A'' ''02-Oct-25'' 0]"

text \<open>A dashboard that shows the data of one plant.\<close>

definition loadedState :: appState where
  "loadedState =
     \<lparr> allData = [processPlantData exampleRow],
       selectedDate = VStr ''01-Oct-25'',
       selectedPlantName = VStr ''A'',
       alerts = [] \<rparr>"

section \<open>Basic facts\<close>

lemma isFinite_iff: "isFinite n \<longleftrightarrow> (\<exists>x. n = Fin x)"
  by (cases n) simp_all


section \<open>Sum invariants of a processed record\<close>

text \<open>
  Claim C1. For every row, the record \<open>processPlantData\<close> returns satisfies the sum
  invariants: each of the five totals (internal gas, electricity consumed, water, diesel
  consumed, diesel issued) is exactly the sum of its listed parts; the placeholder
  record of \<open>getBlankPlantData\<close> satisfies them too.
\<close>

theorem sum_invariants:
  "sumInvariants (processPlantData raw) \<and> sumInvariants getBlankPlantData"
  by (simp add: sumInvariants_def processPlantData_def getBlankPlantData_def Let_def)

section \<open>The guarded ratios\<close>












section \<open>The specific energy consumption\<close>





section \<open>What \<open>safeFloat\<close> returns\<close>















section \<open>The sort key on canonical dates\<close>

subsection \<open>The text of a day and of a year\<close>

lemma char_of_48: "char_of (48 :: nat) = CHR ''0''"
  by code_simp

lemma char_of_50: "char_of (50 :: nat) = CHR ''2''"
  by code_simp

lemma showNat_small: "n < 10 \<Longrightarrow> showNat n = [char_of (48 + n)]"
  by (subst showNat.simps) simp

lemma showNat_two: "10 \<le> n \<Longrightarrow> n < 100 \<Longrightarrow>
    showNat n = [char_of (48 + n div 10), char_of (48 + n mod 10)]"
  by (subst showNat.simps) (simp add: showNat_small)

lemma showNat_step: "10 \<le> n \<Longrightarrow> showNat n = showNat (n div 10) @ [char_of (48 + n mod 10)]"
  by (subst showNat.simps) simp

lemma padStart2_showInt:
  assumes "0 \<le> d" "d < 100"
  shows "padStart2 (showInt d) = [char_of (48 + nat d div 10), char_of (48 + nat d mod 10)]"
proof (cases "d < 10")
  case True
  then show ?thesis using assms
    by (simp add: padStart2_def showInt_def showNat_small char_of_48)
next
  case False
  then show ?thesis using assms
    by (simp add: padStart2_def showInt_def showNat_two)
qed

lemma div_mod_2000:
  fixes k :: nat
  assumes "k < 100"
  shows "(2000 + k) div 10 mod 10 = k div 10" "(2000 + k) mod 10 = k mod 10"
    "(2000 + k) div 10 div 10 = 20"
proof -
  have "(2000 + k) div 10 = (200 * 10 + k) div 10" by simp
  also have "\<dots> = 200 + k div 10" by (rule div_mult_self3) simp
  finally have a: "(2000 + k) div 10 = 200 + k div 10" .
  have "(200 + k div 10) mod 10 = (20 * 10 + k div 10) mod 10" by simp
  also have "\<dots> = (k div 10) mod 10" by (rule mod_mult_self3)
  also have "\<dots> = k div 10" using assms by simp
  finally show "(2000 + k) div 10 mod 10 = k div 10" using a by simp
  have "(2000 + k) mod 10 = (200 * 10 + k) mod 10" by simp
  also have "\<dots> = k mod 10" by (rule mod_mult_self3)
  finally show "(2000 + k) mod 10 = k mod 10" .
  have "(200 + k div 10) div 10 = (20 * 10 + k div 10) div 10" by simp
  also have "\<dots> = 20 + k div 10 div 10" by (rule div_mult_self3) simp
  also have "\<dots> = 20" using assms by simp
  finally show "(2000 + k) div 10 div 10 = 20" using a by simp
qed

lemma showNat_2000:
  assumes "k < 100"
  shows "showNat (2000 + k) = ''20'' @ [char_of (48 + k div 10), char_of (48 + k mod 10)]"
proof -
  have "showNat (2000 + k) = showNat ((2000 + k) div 10) @ [char_of (48 + (2000 + k) mod 10)]"
    by (rule showNat_step) simp
  also have "showNat ((2000 + k) div 10) =
      showNat ((2000 + k) div 10 div 10) @ [char_of (48 + (2000 + k) div 10 mod 10)]"
    by (rule showNat_step) simp
  also have "showNat ((2000 + k) div 10 div 10) = ''20''"
    unfolding div_mod_2000(3) [OF assms] by (simp add: showNat_two char_of_48 char_of_50)
  finally show ?thesis
    by (simp only: div_mod_2000 [OF assms] append_Cons append_Nil)
qed

lemma sliceLast2_showInt:
  assumes "2000 \<le> y" "y \<le> 2099"
  shows "sliceLast2 (showInt y) =
           [char_of (48 + nat (y - 2000) div 10), char_of (48 + nat (y - 2000) mod 10)]"
proof -
  define k where "k = nat (y - 2000)"
  have k: "k < 100" and y: "nat y = 2000 + k" using assms by (simp_all add: k_def)
  have "showInt y = showNat (2000 + k)"
    using assms y by (simp add: showInt_def)
  then have "showInt y = ''20'' @ [char_of (48 + k div 10), char_of (48 + k mod 10)]"
    by (simp only: showNat_2000 [OF k])
  then show ?thesis
    by (simp add: sliceLast2_def k_def)
qed

subsection \<open>Splitting and reading a canonical text\<close>

lemma isDigit_char_of: "k < 10 \<Longrightarrow> isDigit (char_of (48 + k :: nat))"
  by (simp add: isDigit_def)

lemma digitVal_char_of: "k < 10 \<Longrightarrow> digitVal (char_of (48 + k :: nat)) = k"
  by (simp add: digitVal_def)

lemma notWs_char_of: "k < 10 \<Longrightarrow> \<not> isStrWhiteSpace (char_of (48 + k :: nat))"
  by (simp add: isStrWhiteSpace_def)

lemma char_of_digit_neq:
  assumes "k < 10"
  shows "char_of (48 + k :: nat) \<noteq> CHR ''-''" "char_of (48 + k :: nat) \<noteq> CHR ''+''"
proof -
  have v: "(of_char (char_of (48 + k :: nat)) :: nat) = 48 + k" using assms by simp
  show "char_of (48 + k :: nat) \<noteq> CHR ''-''"
  proof
    assume "char_of (48 + k) = CHR ''-''"
    then have "(of_char (char_of (48 + k)) :: nat) = of_char (CHR ''-'')" by simp
    then show False using v by simp
  qed
  show "char_of (48 + k :: nat) \<noteq> CHR ''+''"
  proof
    assume "char_of (48 + k) = CHR ''+''"
    then have "(of_char (char_of (48 + k)) :: nat) = of_char (CHR ''+'')" by simp
    then show False using v by simp
  qed
qed

lemma parseInt10_two_digits:
  assumes "a < 10" "b < 10"
  shows "parseInt10 [char_of (48 + a :: nat), char_of (48 + b :: nat)] = Fin (real (10 * a + b))"
  using assms
  by (simp add: parseInt10_def notWs_char_of char_of_digit_neq isDigit_char_of digitsVal_def
      digitVal_char_of)

lemma splitOn_canonical:
  assumes "a \<noteq> CHR ''-''" "b \<noteq> CHR ''-''" "c \<noteq> CHR ''-''" "d \<noteq> CHR ''-''"
    "CHR ''-'' \<notin> set name"
  shows "splitOn (CHR ''-'') ([a, b] @ ''-'' @ name @ ''-'' @ [c, d]) = [[a, b], name, [c, d]]"
proof -
  have tail: "splitOn (CHR ''-'') [c, d] = [[c, d]]"
    using assms by simp
  have mid: "splitOn (CHR ''-'') (name @ ''-'' @ [c, d]) = [name, [c, d]]"
    using assms(5)
  proof (induction name)
    case Nil
    then show ?case using tail by simp
  next
    case (Cons x xs)
    then show ?case by auto
  qed
  show ?thesis using assms mid by simp
qed

lemma month_cases:
  "m < 12 \<Longrightarrow>
     m = 0 \<or> m = 1 \<or> m = 2 \<or> m = 3 \<or> m = 4 \<or> m = 5 \<or> m = 6 \<or> m = 7 \<or> m = 8 \<or> m = 9
     \<or> m = 10 \<or> m = (11 :: nat)"
  by arith

lemma monthNames_no_dash:
  assumes "m < 12"
  shows "CHR ''-'' \<notin> set (monthNames ! m)"
  using month_cases [OF assms] by (elim disjE) (simp_all add: monthNames_def)

lemma monthOf_monthNames:
  assumes "m < 12"
  shows "monthOf (monthNames ! m) = Fin (real m)"
  using month_cases [OF assms]
  by (elim disjE) (simp_all add: monthNames_def monthOf_def months_def)

subsection \<open>Day numbers of the calendar dates\<close>

lemma truncR_of_int: "truncR (of_int i) = i"
  by (simp add: truncR_def)

lemma truncR_of_nat: "truncR (real n) = int n"
  by (simp add: truncR_def)

lemma dayFromYear_century:
  assumes "2000 \<le> y" "y \<le> 2100"
  shows "dayFromYear y = 365 * (y - 1970) + (y - 1969) div 4"
proof -
  have "(y - 1901) div 100 = (y - 1601) div 400"
  proof (cases "y = 2000")
    case True
    then show ?thesis by simp
  next
    case False
    with assms have a: "100 \<le> y - 1901" "y - 1901 < 200" "400 \<le> y - 1601" "y - 1601 < 800"
      by simp_all
    have "(y - 1901) div 100 = 1" using a(1,2) by simp
    moreover have "(y - 1601) div 400 = 1" using a(3,4) by simp
    ultimately show ?thesis by simp
  qed
  then show ?thesis by (simp add: dayFromYear_def)
qed

lemma inLeapYear_century:
  assumes "2000 \<le> y" "y \<le> 2099"
  shows "inLeapYear y \<longleftrightarrow> y mod 4 = 0"
proof -
  have "y mod 100 = 0 \<Longrightarrow> y = 2000"
  proof -
    assume "y mod 100 = 0"
    then obtain q where q: "y = 100 * q" by (auto simp: mod_eq_0_iff_dvd)
    with assms have "20 \<le> q" "q < 21" by simp_all
    with q show "y = 2000" by simp
  qed
  then show ?thesis by (auto simp: inLeapYear_def)
qed

lemma yearLength:
  assumes "2000 \<le> y" "y \<le> 2099"
  shows "dayFromYear (y + 1) = dayFromYear y + 365 + (if inLeapYear y then 1 else 0)"
proof -
  have a: "dayFromYear (y + 1) = 365 * (y + 1 - 1970) + (y + 1 - 1969) div 4"
    using assms by (intro dayFromYear_century) simp_all
  have b: "dayFromYear y = 365 * (y - 1970) + (y - 1969) div 4"
    using assms by (intro dayFromYear_century) simp_all
  have c: "(y + 1 - 1969) div 4 = (y - 1969) div 4 + (if y mod 4 = 0 then 1 else 0)"
    by presburger
  show ?thesis unfolding a b c inLeapYear_century [OF assms] by simp
qed

lemma dayFromYear_mono_step:
  assumes "2000 \<le> y" "y \<le> 2100"  "2000 \<le> z" "z \<le> 2100" "y \<le> z"
  shows "dayFromYear y \<le> dayFromYear z"
proof -
  have "(y - 1969) div 4 \<le> (z - 1969) div 4"
    using assms(5) by (intro zdiv_mono1) simp_all
  then show ?thesis
    using assms by (simp add: dayFromYear_century)
qed

lemma monthStart_next:
  assumes "m < 11"
  shows "monthStart y (Suc m) = monthStart y m + daysInMonth y m"
proof -
  from assms have "m = 0 \<or> m = 1 \<or> m = 2 \<or> m = 3 \<or> m = 4 \<or> m = 5 \<or> m = 6 \<or> m = 7 \<or> m = 8
     \<or> m = 9 \<or> m = 10" by arith
  then show ?thesis
    by (elim disjE) (simp_all add: monthStart_def daysInMonth_def)
qed

lemma monthStart_last: "monthStart y 11 + daysInMonth y 11 = 365 + (if inLeapYear y then 1 else 0)"
  by (simp add: monthStart_def daysInMonth_def)

lemma daysInMonth_pos: "m < 12 \<Longrightarrow> 28 \<le> daysInMonth y m \<and> daysInMonth y m \<le> 31"
  using month_cases [of m] by (elim disjE | simp add: daysInMonth_def)+

lemma monthStart_mono:
  assumes "m \<le> n" "n < 12"
  shows "monthStart y m \<le> monthStart y n"
  using assms
proof (induction n)
  case 0
  then show ?case by simp
next
  case (Suc n)
  show ?case
  proof (cases "m = Suc n")
    case True
    then show ?thesis by simp
  next
    case False
    with Suc.prems have mn: "m \<le> n" and n: "n < 11" by simp_all
    have "monthStart y m \<le> monthStart y n" using Suc.IH mn n by simp
    also have "\<dots> \<le> monthStart y n + daysInMonth y n"
      using daysInMonth_pos [of n y] n by simp
    also have "\<dots> = monthStart y (Suc n)" using monthStart_next [OF n] by simp
    finally show ?thesis .
  qed
qed

lemma monthStart_before:
  assumes "m < n" "n < 12"
  shows "monthStart y m + daysInMonth y m \<le> monthStart y n"
proof -
  from assms have m: "m < 11" and le: "Suc m \<le> n" by simp_all
  have "monthStart y m + daysInMonth y m = monthStart y (Suc m)"
    using monthStart_next [OF m] by simp
  also have "\<dots> \<le> monthStart y n" using monthStart_mono [OF le assms(2)] .
  finally show ?thesis .
qed

lemma monthStart_nonneg: "m < 12 \<Longrightarrow> 0 \<le> monthStart y m"
  using monthStart_mono [of 0 m y] by (simp add: monthStart_def)

lemma monthStart_year_end:
  assumes "m < 12"
  shows "monthStart y m + daysInMonth y m \<le> 365 + (if inLeapYear y then 1 else 0)"
proof (cases "m = 11")
  case True
  then show ?thesis using monthStart_last [of y] by simp
next
  case False
  with assms have "m < 11" by simp
  then have "monthStart y m + daysInMonth y m \<le> monthStart y 11"
    by (intro monthStart_before) simp_all
  also have "\<dots> \<le> monthStart y 11 + daysInMonth y 11"
    using daysInMonth_pos [of 11 y] by simp
  finally show ?thesis using monthStart_last [of y] by simp
qed

lemma makeDay_month: "m < 12 \<Longrightarrow> makeDay y (int m) d = dayFromYear y + monthStart y m + d - 1"
  by (simp add: makeDay_def)

text \<open>The day number grows strictly with the calendar date.\<close>

lemma makeDay_strict_mono:
  assumes "validDate (y1, m1, d1)" "validDate (y2, m2, d2)" "earlier (y1, m1, d1) (y2, m2, d2)"
  shows "makeDay y1 (int m1) d1 < makeDay y2 (int m2) d2"
proof -
  from assms(1) have v1: "2000 \<le> y1" "y1 \<le> 2099" "m1 < 12" "1 \<le> d1" "d1 \<le> daysInMonth y1 m1"
    by (simp_all add: validDate_def)
  from assms(2) have v2: "2000 \<le> y2" "y2 \<le> 2099" "m2 < 12" "1 \<le> d2" "d2 \<le> daysInMonth y2 m2"
    by (simp_all add: validDate_def)
  from assms(3) consider
      (year) "y1 < y2"
    | (month) "y1 = y2" "m1 < m2"
    | (day) "y1 = y2" "m1 = m2" "d1 < d2"
    by (auto simp: earlier_def)
  then show ?thesis
  proof cases
    case year
    have "monthStart y1 m1 + d1 \<le> monthStart y1 m1 + daysInMonth y1 m1" using v1 by simp
    also have "\<dots> \<le> 365 + (if inLeapYear y1 then 1 else 0)"
      using monthStart_year_end [OF v1(3)] .
    finally have "dayFromYear y1 + monthStart y1 m1 + d1 \<le> dayFromYear (y1 + 1)"
      using yearLength [OF v1(1,2)] by simp
    also have "\<dots> \<le> dayFromYear y2"
      using v1 v2 year by (intro dayFromYear_mono_step) simp_all
    also have "\<dots> \<le> dayFromYear y2 + monthStart y2 m2 + d2 - 1"
      using monthStart_nonneg [OF v2(3), of y2] v2(4) by simp
    finally show ?thesis by (simp add: makeDay_month [OF v1(3)] makeDay_month [OF v2(3)])
  next
    case month
    have "monthStart y1 m1 + d1 \<le> monthStart y1 m1 + daysInMonth y1 m1" using v1 by simp
    also have "\<dots> \<le> monthStart y1 m2" using monthStart_before [OF month(2) v2(3)] .
    finally show ?thesis using v2(4) month(1)
      by (simp add: makeDay_month [OF v1(3)] makeDay_month [OF v2(3)])
  next
    case day
    then show ?thesis by (simp add: makeDay_def)
  qed
qed

lemma makeDay_range:
  assumes "validDate (y, m, d)"
  shows "10957 \<le> makeDay y (int m) d" "makeDay y (int m) d < 47848"
proof -
  from assms have v: "2000 \<le> y" "y \<le> 2099" "m < 12" "1 \<le> d" "d \<le> daysInMonth y m"
    by (simp_all add: validDate_def)
  have lo: "dayFromYear 2000 \<le> dayFromYear y"
    using v by (intro dayFromYear_mono_step) simp_all
  have "dayFromYear 2000 = 10957" by (simp add: dayFromYear_def)
  with lo show "10957 \<le> makeDay y (int m) d"
    using monthStart_nonneg [OF v(3), of y] v(4) by (simp add: makeDay_month [OF v(3)])
  have "monthStart y m + d \<le> monthStart y m + daysInMonth y m" using v by simp
  also have "\<dots> \<le> 365 + (if inLeapYear y then 1 else 0)" using monthStart_year_end [OF v(3)] .
  finally have "dayFromYear y + monthStart y m + d \<le> dayFromYear (y + 1)"
    using yearLength [OF v(1,2)] by simp
  also have "\<dots> \<le> dayFromYear 2100"
    using v by (intro dayFromYear_mono_step) simp_all
  also have "dayFromYear 2100 = 47482" by (simp add: dayFromYear_def)
  finally show "makeDay y (int m) d < 47848" by (simp add: makeDay_month [OF v(3)])
qed

subsection \<open>The key of a canonical date\<close>

lemma formatYMD_canonical:
  assumes "validDate (y, m, d)"
  shows "formatYMD (y, m, d) =
           [char_of (48 + nat d div 10), char_of (48 + nat d mod 10)] @ ''-'' @ monthNames ! m
             @ ''-'' @ [char_of (48 + nat (y - 2000) div 10), char_of (48 + nat (y - 2000) mod 10)]"
proof -
  from assms have v: "2000 \<le> y" "y \<le> 2099" "m < 12" "1 \<le> d" "d \<le> daysInMonth y m"
    by (simp_all add: validDate_def)
  have d: "0 \<le> d" "d < 100" using v(4,5) daysInMonth_pos [OF v(3), of y] by auto
  show ?thesis
    by (simp add: formatYMD_def padStart2_showInt [OF d] sliceLast2_showInt [OF v(1,2)])
qed

lemma two_digit_value: "n < 100 \<Longrightarrow> 10 * (n div 10) + n mod 10 = (n :: nat)"
  by simp

lemma parseDateString_canonical:
  assumes "validDate (y, m, d)"
  shows "parseDateString (formatYMD (y, m, d)) = Fin (of_int (makeDay y (int m) d * msPerDay))"
proof -
  from assms have v: "2000 \<le> y" "y \<le> 2099" "m < 12" "1 \<le> d" "d \<le> daysInMonth y m"
    by (simp_all add: validDate_def)
  define nd where "nd = nat d"
  define ny where "ny = nat (y - 2000)"
  have nd: "nd < 100" "int nd = d" using v(4,5) daysInMonth_pos [OF v(3), of y]
    by (auto simp: nd_def)
  have ny: "ny < 100" "2000 + int ny = y" using v(1,2) by (simp_all add: ny_def)
  have dg: "nd div 10 < 10" "nd mod 10 < 10" "ny div 10 < 10" "ny mod 10 < 10"
    using nd(1) ny(1) by simp_all
  have split: "splitOn (CHR ''-'') (formatYMD (y, m, d)) =
      [[char_of (48 + nd div 10), char_of (48 + nd mod 10)], monthNames ! m,
       [char_of (48 + ny div 10), char_of (48 + ny mod 10)]]"
    unfolding formatYMD_canonical [OF assms] nd_def [symmetric] ny_def [symmetric]
    by (intro splitOn_canonical char_of_digit_neq dg monthNames_no_dash v(3))
  have day: "parseInt10 [char_of (48 + nd div 10), char_of (48 + nd mod 10)] = Fin (real nd)"
    by (simp only: parseInt10_two_digits [OF dg(1,2)] two_digit_value [OF nd(1)])
  have year: "parseInt10 [char_of (48 + ny div 10), char_of (48 + ny mod 10)] = Fin (real ny)"
    by (simp only: parseInt10_two_digits [OF dg(3,4)] two_digit_value [OF ny(1)])
  have yr: "jadd (Fin 2000) (Fin (real ny)) = Fin (of_int y)"
    using ny(2) by (simp flip: ny(2))
  have dr: "Fin (real nd) = Fin (of_int d)" using nd(2) by (simp flip: nd(2))
  have mr: "Fin (real m) = Fin (of_int (int m))" by simp
  have key: "parseDateString (formatYMD (y, m, d)) = dateUTC (Fin (of_int y)) (Fin (of_int (int m))) (Fin (of_int d))"
    unfolding parseDateString_def split
    by (simp only: list.case Let_def day year yr dr monthOf_monthNames [OF v(3)] mr)
  have rng: "\<bar>makeDay y (int m) d * msPerDay\<bar> \<le> 8640000000000000"
    using makeDay_range [OF assms] by (simp add: msPerDay_def abs_if)
  have "dateUTC (Fin (of_int y)) (Fin (of_int (int m))) (Fin (of_int d)) =
          timeClip (makeDay y (int m) d * msPerDay)"
    using v(1) by (simp only: dateUTC.simps truncR_of_int Let_def) simp
  also have "\<dots> = Fin (of_int (makeDay y (int m) d * msPerDay))"
    using rng by (simp add: timeClip_def)
  finally show ?thesis using key by simp
qed

lemma key_strict_mono:
  assumes "validDate a" "validDate b" "earlier a b"
  shows "jlt (parseDateString (formatYMD a)) (parseDateString (formatYMD b))"
proof -
  obtain y1 m1 d1 where a: "a = (y1, m1, d1)" by (cases a)
  obtain y2 m2 d2 where b: "b = (y2, m2, d2)" by (cases b)
  have "makeDay y1 (int m1) d1 < makeDay y2 (int m2) d2"
    using assms unfolding a b by (rule makeDay_strict_mono)
  then have "makeDay y1 (int m1) d1 * msPerDay < makeDay y2 (int m2) d2 * msPerDay"
    by (simp add: msPerDay_def)
  then have "jlt (Fin (of_int (makeDay y1 (int m1) d1 * msPerDay)))
                 (Fin (of_int (makeDay y2 (int m2) d2 * msPerDay)))"
    by (simp only: jlt.simps of_int_less_iff)
  then show ?thesis
    using assms(1,2) unfolding a b by (simp only: parseDateString_canonical)
qed

lemma key_positive:
  assumes "validDate a"
  shows "jlt (Fin 0) (parseDateString (formatYMD a))"
proof -
  obtain y m d where a: "a = (y, m, d)" by (cases a)
  have "0 < makeDay y (int m) d * msPerDay"
    using makeDay_range(1) [of y m d] assms unfolding a by (simp add: msPerDay_def)
  then have "jlt (Fin 0) (Fin (of_int (makeDay y (int m) d * msPerDay)))"
    by (simp only: jlt.simps of_int_0_less_iff)
  then show ?thesis
    using assms unfolding a by (simp only: parseDateString_canonical)
qed

lemma earlier_total: "earlier a b \<or> a = b \<or> earlier b a"
  by (cases a; cases b) (auto simp: earlier_def)

lemma jlt_irrefl: "\<not> jlt a a"
  by (cases a) simp_all

lemma jlt_asym: "jlt a b \<Longrightarrow> \<not> jlt b a"
  by (cases a; cases b) simp_all

lemma key_earlier_iff:
  assumes "validDate a" "validDate b"
  shows "jlt (parseDateString (formatYMD a)) (parseDateString (formatYMD b)) \<longleftrightarrow> earlier a b"
proof
  assume lt: "jlt (parseDateString (formatYMD a)) (parseDateString (formatYMD b))"
  from earlier_total [of a b] show "earlier a b"
  proof (elim disjE)
    assume "a = b"
    with lt show ?thesis by (simp add: jlt_irrefl)
  next
    assume "earlier b a"
    from key_strict_mono [OF assms(2,1) this] lt show ?thesis
      using jlt_asym by blast
  qed
next
  assume "earlier a b"
  then show "jlt (parseDateString (formatYMD a)) (parseDateString (formatYMD b))"
    using assms by (intro key_strict_mono)
qed

subsection \<open>Texts without three segments\<close>

lemma splitOn_nonempty: "splitOn c s \<noteq> []"
  by (induction s) (auto split: list.splits)

lemma parseDateString_sentinel:
  assumes "length (splitOn (CHR ''-'') s) \<noteq> 3"
  shows "parseDateString s = Fin 0"
proof -
  have "\<And>xs :: string list. length xs \<noteq> 3 \<Longrightarrow>
      (case xs of [p0, p1, p2] \<Rightarrow> f p0 p1 p2 | _ \<Rightarrow> Fin 0) = Fin 0" for f
    by (auto split: list.splits)
  from this [OF assms] show ?thesis by (simp add: parseDateString_def)
qed

text \<open>
  Claim C7. For every string that does not split on \<open>-\<close> into exactly three segments
  \<open>parseDateString\<close> returns the fixed timestamp 0; it is a total function, nothing is
  raised. The key of every canonical date is above 0, so such a string sorts before
  every well-formed date.
\<close>

theorem malformed_sort_first:
  assumes "length (splitOn (CHR ''-'') s) \<noteq> 3"
  shows "parseDateString s = Fin 0
       \<and> (validDate a \<longrightarrow> jlt (parseDateString s) (parseDateString (formatYMD a)))"
  using parseDateString_sentinel [OF assms] key_positive [of a] by simp

theorem malformed_sort_first_witness:
  "length (splitOn (CHR ''-'') ''2025/10/01'') \<noteq> 3
   \<and> validDate (2025, 9, 1)
   \<and> parseDateString ''2025/10/01'' = Fin 0
   \<and> jlt (Fin 0) (parseDateString (formatYMD (2025, 9, 1)))"
proof -
  have n: "length (splitOn (CHR ''-'') ''2025/10/01'') \<noteq> 3" by simp
  have v: "validDate (2025, 9, 1)" by (simp add: validDate_def daysInMonth_def)
  from malformed_sort_first [OF n, of "(2025, 9, 1)"] v
  have "parseDateString ''2025/10/01'' = Fin 0
      \<and> jlt (Fin 0) (parseDateString (formatYMD (2025, 9, 1)))"
    by metis
  with n v show ?thesis by blast
qed

subsection \<open>The sorted list of dates\<close>

text \<open>Deduplication keeps every element once.\<close>

lemma sameValueZero_refl: "sameValueZero x x"
  by (cases x) simp_all

lemma set_uniq_subset: "set (uniq xs) \<subseteq> set xs"
  by (induction xs) auto

lemma distinct_uniq: "distinct (uniq xs)"
  by (induction xs) (auto simp: sameValueZero_refl)

lemma sameValueZero_string: "isString x \<Longrightarrow> sameValueZero x y \<longleftrightarrow> x = y"
  by (cases x; cases y) simp_all

lemma set_uniq_strings:
  assumes "\<forall>x \<in> set xs. isString x"
  shows "set (uniq xs) = set xs"
  using assms
proof (induction xs)
  case Nil
  then show ?case by simp
next
  case (Cons x xs)
  then have "set (uniq xs) = set xs" by simp
  moreover have "\<And>y. sameValueZero x y \<longleftrightarrow> x = y"
    using Cons.prems by (simp add: sameValueZero_string)
  ultimately show ?case by auto
qed

text \<open>Insertion keeps the elements and, on finite keys, the order of the keys.\<close>

lemma set_insertDate: "set (insertDate x xs) = insert x (set xs)"
  by (induction xs) auto

lemma set_foldr_insertDate: "set (foldr insertDate xs []) = set xs"
  by (induction xs) (auto simp: set_insertDate)

lemma distinct_insertDate: "distinct (insertDate x xs) \<longleftrightarrow> x \<notin> set xs \<and> distinct xs"
  by (induction xs) (auto simp: set_insertDate)

lemma distinct_foldr_insertDate: "distinct xs \<Longrightarrow> distinct (foldr insertDate xs [])"
  by (induction xs) (auto simp: distinct_insertDate set_foldr_insertDate)

lemma compare_positive:
  assumes "finiteKey u" "finiteKey v"
  shows "jgt (compareDates u v) (Fin 0) \<longleftrightarrow> jlt (keyOf v) (keyOf u)"
proof -
  from assms obtain a b where "keyOf u = Fin a" "keyOf v = Fin b"
    by (auto simp: finiteKey_def isFinite_iff)
  then show ?thesis by (simp add: compareDates_def jsub_def jgt_def)
qed

lemma keyLe_total: "finiteKey u \<Longrightarrow> finiteKey v \<Longrightarrow> \<not> keyLe u v \<Longrightarrow> keyLe v u"
  by (auto simp: keyLe_def finiteKey_def isFinite_iff)

lemma keyLe_trans:
  "finiteKey u \<Longrightarrow> finiteKey v \<Longrightarrow> finiteKey w \<Longrightarrow> keyLe u v \<Longrightarrow> keyLe v w \<Longrightarrow> keyLe u w"
  by (auto simp: keyLe_def finiteKey_def isFinite_iff)

lemma sorted_insertDate:
  assumes "finiteKey x" "\<forall>y \<in> set xs. finiteKey y" "sorted_wrt keyLe xs"
  shows "sorted_wrt keyLe (insertDate x xs)"
  using assms
proof (induction xs)
  case Nil
  then show ?case by simp
next
  case (Cons y ys)
  show ?case
  proof (cases "jgt (compareDates x y) (Fin 0)")
    case True
    then have "jlt (keyOf y) (keyOf x)"
      using compare_positive Cons.prems by simp
    then have yx: "keyLe y x"
      using Cons.prems by (auto simp: keyLe_def finiteKey_def isFinite_iff)
    have "sorted_wrt keyLe (insertDate x ys)" using Cons by simp
    moreover have "\<forall>z \<in> set (insertDate x ys). keyLe y z"
      using Cons.prems yx by (auto simp: set_insertDate)
    ultimately show ?thesis using True by simp
  next
    case False
    then have xy: "keyLe x y"
      using compare_positive Cons.prems by (simp add: keyLe_def)
    have "\<forall>z \<in> set ys. keyLe x z"
    proof
      fix z assume z: "z \<in> set ys"
      then have "keyLe y z" using Cons.prems by simp
      with xy show "keyLe x z"
        using keyLe_trans [of x y z] Cons.prems z by simp
    qed
    then show ?thesis using False xy Cons.prems by simp
  qed
qed

lemma sorted_foldr_insertDate:
  assumes "\<forall>y \<in> set xs. finiteKey y"
  shows "sorted_wrt keyLe (foldr insertDate xs [])"
  using assms
  by (induction xs) (auto intro!: sorted_insertDate simp: set_foldr_insertDate)

lemma sortDates_strings:
  assumes "\<forall>x \<in> set xs. isString x"
  shows "sortDates xs = Inr (foldr insertDate xs [])"
proof -
  have a: "filter (\<lambda>v. v \<noteq> VUndefined) xs = xs"
    using assms by (auto simp: filter_id_conv)
  have b: "filter (\<lambda>v. v = VUndefined) xs = []"
    using assms by (auto simp: filter_empty_conv)
  show ?thesis using assms by (simp add: sortDates_def a b)
qed

lemma formatYMD_inj:
  assumes "validDate a" "validDate b" "formatYMD a = formatYMD b"
  shows "a = b"
proof -
  have "\<not> earlier a b" "\<not> earlier b a"
    using key_strict_mono [OF assms(1,2)] key_strict_mono [OF assms(2,1)] assms(3)
    by (auto simp: jlt_irrefl)
  then show ?thesis using earlier_total [of a b] by blast
qed

lemma finiteKey_canonical: "validDate a \<Longrightarrow> finiteKey (VStr (formatYMD a))"
  by (cases a) (simp add: finiteKey_def parseDateString_canonical)

lemma keyLe_canonical:
  assumes "validDate a" "validDate b" "a \<noteq> b" "keyLe (VStr (formatYMD a)) (VStr (formatYMD b))"
  shows "earlier a b"
proof -
  have "\<not> earlier b a"
    using assms(4) key_strict_mono [OF assms(2,1)] by (auto simp: keyLe_def)
  then show ?thesis using earlier_total [of a b] assms(3) by blast
qed

lemma ex_map_subset:
  assumes "set ys \<subseteq> f ` A"
  shows "\<exists>zs. ys = map f zs \<and> set zs \<subseteq> A"
  using assms
proof (induction ys)
  case Nil
  then show ?case by simp
next
  case (Cons y ys)
  then obtain zs where zs: "ys = map f zs" "set zs \<subseteq> A" by auto
  from Cons.prems obtain z where z: "z \<in> A" "y = f z" by auto
  have "y # ys = map f (z # zs) \<and> set (z # zs) \<subseteq> A" using zs z by simp
  then show ?case by (rule exI)
qed

lemma availableDates_canonical:
  assumes valid: "\<forall>a \<in> set ymds. validDate a"
    and dates: "map date dataset = map (\<lambda>a. VStr (formatYMD a)) ymds"
  shows "\<exists>zs. availableDates dataset = Inr (map (\<lambda>a. VStr (formatYMD a)) zs)
              \<and> set zs = set ymds \<and> sorted_wrt earlier zs"
proof -
  define f where "f = (\<lambda>a. VStr (formatYMD a))"
  define xs where "xs = map f ymds"
  define rs where "rs = foldr insertDate (uniq xs) []"
  have str: "\<forall>x \<in> set xs. isString x" by (auto simp: xs_def f_def)
  then have ustr: "\<forall>x \<in> set (uniq xs). isString x" using set_uniq_subset [of xs] by blast
  have av: "availableDates dataset = Inr rs"
    using dates sortDates_strings [OF ustr]
    by (simp add: availableDates_def rs_def xs_def f_def)
  have "set rs = set xs"
    by (simp add: rs_def set_foldr_insertDate set_uniq_strings [OF str])
  then have set_rs: "set rs = f ` set ymds"
    by (simp add: xs_def)
  have dist_rs: "distinct rs"
    by (simp add: rs_def distinct_foldr_insertDate distinct_uniq)
  have fin: "\<forall>y \<in> set (uniq xs). finiteKey y"
    using set_uniq_subset [of xs] valid by (auto simp: xs_def f_def finiteKey_canonical)
  have sorted_rs: "sorted_wrt keyLe rs"
    unfolding rs_def using fin by (rule sorted_foldr_insertDate)
  from set_rs obtain zs where zs: "rs = map f zs" "set zs \<subseteq> set ymds"
    using ex_map_subset [of rs f "set ymds"] by auto
  have vz: "\<forall>a \<in> set zs. validDate a" using zs(2) valid by blast
  have dz: "distinct zs" using dist_rs zs(1) by (simp add: distinct_map)
  have sz: "sorted_wrt (\<lambda>a b. keyLe (f a) (f b)) zs"
    using sorted_rs zs(1) by (simp add: sorted_wrt_map)
  have "sorted_wrt earlier zs"
    using sz dz vz
  proof (induction zs)
    case Nil
    then show ?case by simp
  next
    case (Cons z zs)
    have "\<forall>b \<in> set zs. earlier z b"
    proof
      fix b assume b: "b \<in> set zs"
      then have "keyLe (f z) (f b)" "z \<noteq> b" "validDate z" "validDate b"
        using Cons.prems by auto
      then show "earlier z b" using keyLe_canonical [of z b] by (simp add: f_def)
    qed
    moreover have "sorted_wrt earlier zs" using Cons by simp
    ultimately show ?case by simp
  qed
  moreover have "set zs = set ymds"
  proof
    show "set zs \<subseteq> set ymds" by (rule zs(2))
    show "set ymds \<subseteq> set zs"
    proof
      fix a assume a: "a \<in> set ymds"
      then have "f a \<in> set rs" using set_rs by simp
      then obtain z where z: "z \<in> set zs" "f z = f a" using zs(1) by auto
      then have "formatYMD z = formatYMD a" by (simp add: f_def)
      then have "z = a" using formatYMD_inj [of z a] vz z(1) valid a by blast
      with z(1) show "a \<in> set zs" by simp
    qed
  qed
  ultimately show ?thesis using av zs(1) by (auto simp: f_def)
qed

text \<open>
  Claim C6. For any two canonical date strings \<open>DD-Mon-YY\<close> (the texts of the calendar
  dates of 2000 to 2099) the key \<open>parseDateString\<close> is strictly monotonic in calendar
  order, within a year and across years. Hence, on data whose dates are canonical, the
  unique dates sorted by this key come out in strictly ascending calendar order, each
  date of the data once.
\<close>

theorem sort_key_chronological:
  "(validDate a \<and> validDate b \<and> earlier a b
      \<longrightarrow> jlt (parseDateString (formatYMD a)) (parseDateString (formatYMD b)))
   \<and> ((\<forall>c \<in> set ymds. validDate c) \<and> map date dataset = map (\<lambda>c. VStr (formatYMD c)) ymds
      \<longrightarrow> (\<exists>zs. availableDates dataset = Inr (map (\<lambda>c. VStr (formatYMD c)) zs)
                \<and> set zs = set ymds \<and> sorted_wrt earlier zs))"
  using key_strict_mono [of a b] availableDates_canonical [of ymds dataset] by blast

lemma sample_texts:
  "formatYMD (2025, 9, 1) = ''01-Oct-25''"
  "formatYMD (2025, 9, 5) = ''05-Oct-25''"
  "formatYMD (2025, 10, 1) = ''01-Nov-25''"
  "formatYMD (2026, 9, 1) = ''01-Oct-26''"
  by code_simp+

lemma sample_keys:
  "parseDateString ''01-Oct-25'' = Fin 1759276800000"
  "parseDateString ''05-Oct-25'' = Fin 1759622400000"
  "parseDateString ''01-Nov-25'' = Fin 1761955200000"
  "parseDateString ''01-Oct-26'' = Fin 1790812800000"
  by code_simp+

lemma sample_valid: "\<forall>c \<in> set sampleDates. validDate c"
  by code_simp

lemma sample_dates: "map date sampleData = map (\<lambda>c. VStr (formatYMD c)) sampleDates"
  by (simp add: sampleData_def)

lemma sample_sorted:
  "availableDates sampleData =
     Inr [VStr ''01-Oct-25'', VStr ''05-Oct-25'', VStr ''01-Nov-25'', VStr ''01-Oct-26'']"
  by code_simp

theorem sort_key_chronological_witness:
  "validDate (2025, 9, 1) \<and> validDate (2025, 9, 5) \<and> earlier (2025, 9, 1) (2025, 9, 5)
   \<and> jlt (parseDateString ''01-Oct-25'') (parseDateString ''05-Oct-25'')
   \<and> list_all validDate sampleDates
   \<and> map date sampleData = map (\<lambda>c. VStr (formatYMD c)) sampleDates
   \<and> (\<exists>zs. availableDates sampleData = Inr (map (\<lambda>c. VStr (formatYMD c)) zs)
            \<and> set zs = set sampleDates \<and> sorted_wrt earlier zs)
   \<and> availableDates sampleData =
       Inr [VStr ''01-Oct-25'', VStr ''05-Oct-25'', VStr ''01-Nov-25'', VStr ''01-Oct-26'']"
proof -
  have v: "validDate (2025, 9, 1)" "validDate (2025, 9, 5)" "earlier (2025, 9, 1) (2025, 9, 5)"
    by (simp_all add: validDate_def daysInMonth_def earlier_def)
  from sort_key_chronological [of "(2025, 9, 1)" "(2025, 9, 5)" sampleDates sampleData]
  have "jlt (parseDateString (formatYMD (2025, 9, 1))) (parseDateString (formatYMD (2025, 9, 5)))"
    and "\<exists>zs. availableDates sampleData = Inr (map (\<lambda>c. VStr (formatYMD c)) zs)
            \<and> set zs = set sampleDates \<and> sorted_wrt earlier zs"
    using v sample_valid sample_dates by blast+
  then show ?thesis
    using v sample_valid sample_dates sample_sorted by (simp only: sample_texts list_all_iff)
qed

subsection \<open>Unknown months\<close>

lemma parseDateString_three:
  "splitOn (CHR ''-'') s = [p0, p1, p2] \<Longrightarrow>
     parseDateString s = dateUTC (jadd (Fin 2000) (parseInt10 p2)) (monthOf p1) (parseInt10 p0)"
  by (simp add: parseDateString_def)

lemma map_of_months_None: "p \<notin> set monthNames \<Longrightarrow> map_of months p = None"
  by (simp add: months_def monthNames_def)

lemma monthOf_unknown:
  "p \<notin> set monthNames \<Longrightarrow> p \<notin> set inheritedNames \<Longrightarrow> monthOf p = Fin 0"
  by (simp add: monthOf_def map_of_months_None)

lemma monthOf_inherited: "\<forall>p \<in> set inheritedNames. monthOf p = NaN"
  by code_simp

text \<open>Off the inherited names, an unknown month is read as January.\<close>

lemma unknown_month_key:
  assumes "splitOn (CHR ''-'') s = [p0, p1, p2]" "p1 \<notin> set monthNames" "p1 \<notin> set inheritedNames"
  shows "parseDateString s = dateUTC (jadd (Fin 2000) (parseInt10 p2)) (Fin 0) (parseInt10 p0)"
  using assms by (simp add: parseDateString_three monthOf_unknown)

lemma splitOn_segments: "p \<in> set (splitOn c s) \<Longrightarrow> c \<notin> set p"
proof (induction s arbitrary: p)
  case Nil
  then show ?case by simp
next
  case (Cons x xs)
  show ?case
  proof (cases "x = c")
    case True
    with Cons show ?thesis by auto
  next
    case False
    obtain q qs where q: "splitOn c xs = q # qs"
      using splitOn_nonempty [of c xs] by (cases "splitOn c xs") auto
    with False Cons.prems have "p = x # q \<or> p \<in> set qs" by simp
    then show ?thesis
      using Cons.IH [of q] Cons.IH [of p] q False by auto
  qed
qed

lemma takeSign_positive:
  assumes "CHR ''-'' \<notin> set u"
  shows "fst (takeSign u) = 1"
  using assms by (cases u) auto

lemma parseInt10_nonneg:
  assumes "CHR ''-'' \<notin> set p"
  shows "parseInt10 p = NaN \<or> (\<exists>k :: nat. parseInt10 p = Fin (real k))"
proof -
  have "CHR ''-'' \<notin> set (dropWhile isStrWhiteSpace p)"
    using assms set_dropWhileD by fastforce
  from takeSign_positive [OF this] show ?thesis
    by (cases "takeSign (dropWhile isStrWhiteSpace p)") (auto simp: parseInt10_def Let_def)
qed

lemma monthOf_cases: "monthOf p = NaN \<or> (\<exists>m < 12. monthOf p = Fin (real m))"
proof (cases "map_of months p")
  case None
  then show ?thesis
    by (cases "p \<in> set inheritedNames") (auto simp: monthOf_def intro: exI [of _ 0])
next
  case (Some k)
  then have "(p, k) \<in> set months" by (rule map_of_SomeD)
  then have "k < 12" by (auto simp: months_def)
  with Some show ?thesis by (auto simp: monthOf_def)
qed

lemma dayFromYear_lower:
  assumes "2000 \<le> y"
  shows "10950 \<le> dayFromYear y"
proof -
  have a: "(y - 1901) div 100 * 100 \<le> y - 1901" by simp
  have b: "y - 1969 < (y - 1969) div 4 * 4 + 4"
    using pos_mod_bound [of 4 "y - 1969"] by (simp add: minus_mod_eq_div_mult [symmetric])
  have c: "0 \<le> (y - 1601) div 400" using assms by simp
  have "(y - 1901) div 100 \<le> (y - 1969) div 4" using a b assms by linarith
  then show ?thesis using c assms by (simp add: dayFromYear_def)
qed

text \<open>A text of three segments never gets the key 0.\<close>

lemma three_segments_not_sentinel:
  assumes "length (splitOn (CHR ''-'') s) = 3"
  shows "parseDateString s \<noteq> Fin 0"
proof -
  from assms obtain p0 p1 p2 where sp: "splitOn (CHR ''-'') s = [p0, p1, p2]"
    by (auto simp: length_Suc_conv numeral_3_eq_3)
  have nd: "CHR ''-'' \<notin> set p0" "CHR ''-'' \<notin> set p2"
    using splitOn_segments [of _ "CHR ''-''" s] sp by simp_all
  have key: "parseDateString s =
      dateUTC (jadd (Fin 2000) (parseInt10 p2)) (monthOf p1) (parseInt10 p0)"
    using sp by (rule parseDateString_three)
  show ?thesis
  proof (cases "parseInt10 p0 = NaN \<or> parseInt10 p2 = NaN \<or> monthOf p1 = NaN")
    case True
    then have "parseDateString s = NaN"
      unfolding key by (cases "parseInt10 p2"; cases "monthOf p1"; cases "parseInt10 p0") auto
    then show ?thesis by simp
  next
    case False
    then obtain kd ky m where v: "parseInt10 p0 = Fin (real kd)" "parseInt10 p2 = Fin (real ky)"
        "monthOf p1 = Fin (real m)" "m < 12"
      using parseInt10_nonneg [OF nd(1)] parseInt10_nonneg [OF nd(2)] monthOf_cases [of p1]
      by auto
    define y where "y = 2000 + int ky"
    have y: "2000 \<le> y" by (simp add: y_def)
    have "jadd (Fin 2000) (Fin (real ky)) = Fin (of_int y)" by (simp add: y_def)
    then have "parseDateString s = dateUTC (Fin (of_int y)) (Fin (of_int (int m))) (Fin (of_int (int kd)))"
      unfolding key v by simp
    also have "\<dots> = timeClip (makeDay y (int m) (int kd) * msPerDay)"
      using y by (simp only: dateUTC.simps truncR_of_int Let_def) simp
    finally have k2: "parseDateString s = timeClip (makeDay y (int m) (int kd) * msPerDay)" .
    have pos: "0 < makeDay y (int m) (int kd)"
      using dayFromYear_lower [OF y] monthStart_nonneg [OF v(4), of y]
      by (simp add: makeDay_month [OF v(4)])
    define t where "t = makeDay y (int m) (int kd) * msPerDay"
    have "0 < t" using pos by (simp add: t_def msPerDay_def)
    then have "timeClip t \<noteq> Fin 0" by (simp add: timeClip_def)
    then show ?thesis unfolding k2 t_def .
  qed
qed

lemma splitOn_single: "c \<notin> set p \<Longrightarrow> splitOn c p = [p]"
  by (induction p) auto

lemma splitOn_append: "c \<notin> set p \<Longrightarrow> splitOn c (p @ c # rest) = p # splitOn c rest"
  by (induction p) auto

lemma splitOn_january:
  assumes "CHR ''-'' \<notin> set p0" "CHR ''-'' \<notin> set p2"
  shows "splitOn (CHR ''-'') (p0 @ ''-Jan-'' @ p2) = [p0, ''Jan'', p2]"
proof -
  have "splitOn (CHR ''-'') (''Jan'' @ CHR ''-'' # p2) = ''Jan'' # splitOn (CHR ''-'') p2"
    by (rule splitOn_append) simp
  then have "splitOn (CHR ''-'') (''Jan-'' @ p2) = [''Jan'', p2]"
    using splitOn_single [OF assms(2)] by simp
  moreover have "splitOn (CHR ''-'') (p0 @ CHR ''-'' # (''Jan-'' @ p2)) =
      p0 # splitOn (CHR ''-'') (''Jan-'' @ p2)"
    using assms(1) by (rule splitOn_append)
  ultimately show ?thesis by simp
qed

lemma monthOf_Jan: "monthOf ''Jan'' = Fin 0"
  by (simp add: monthOf_def months_def)

lemma unknown_month_samples:
  "splitOn (CHR ''-'') ''xx-Foo-25'' = [''xx'', ''Foo'', ''25'']"
  "''Foo'' \<notin> set monthNames"
  "parseDateString ''xx-Foo-25'' = NaN"
  "splitOn (CHR ''-'') ''05-Xyz-25'' = [''05'', ''Xyz'', ''25'']"
  "''Xyz'' \<notin> set monthNames"
  "''Xyz'' \<notin> set inheritedNames"
  "parseDateString ''05-Jan-25'' = Fin 1736035200000"
  "splitOn (CHR ''-'') ''01-constructor-25'' = [''01'', ''constructor'', ''25'']"
  "''constructor'' \<notin> set monthNames"
  "parseDateString ''01-constructor-25'' = NaN"
  "parseDateString ''01-Jan-25'' = Fin 1735689600000"
  by code_simp+

text \<open>
  Claim C10, as stated: every text of three segments whose middle segment is not one of
  the twelve month abbreviations gets the UTC timestamp of its day in January of its
  year. The text \<open>xx-Foo-25\<close> has three segments and an unknown month; its day does not
  parse and its key is NaN, which is no timestamp.
\<close>

theorem unknown_month_without_timestamp:
  "splitOn (CHR ''-'') ''xx-Foo-25'' = [''xx'', ''Foo'', ''25'']
   \<and> ''Foo'' \<notin> set monthNames
   \<and> \<not> isFinite (parseDateString ''xx-Foo-25'')"
  by (simp only: unknown_month_samples isFinite.simps simp_thms)

text \<open>
  Claim C10, amended. For every text of three segments whose middle segment is neither
  one of the twelve month abbreviations nor a name the month table inherits,
  \<open>parseDateString\<close> does not return 0: it substitutes month 0 and returns
  \<open>Date.UTC(2000 + year, 0, day)\<close> for the year and the day that \<open>parseInt\<close> reads (NaN
  when one of them is NaN), which is the key of the same text with \<open>Jan\<close> as its middle
  segment.
\<close>

theorem unknown_month_january:
  assumes "splitOn (CHR ''-'') s = [p0, p1, p2]" "p1 \<notin> set monthNames" "p1 \<notin> set inheritedNames"
  shows "parseDateString s \<noteq> Fin 0
       \<and> parseDateString s = dateUTC (jadd (Fin 2000) (parseInt10 p2)) (Fin 0) (parseInt10 p0)
       \<and> parseDateString s = parseDateString (p0 @ ''-Jan-'' @ p2)"
proof -
  have nd: "CHR ''-'' \<notin> set p0" "CHR ''-'' \<notin> set p2"
    using splitOn_segments [of _ "CHR ''-''" s] assms(1) by simp_all
  have "parseDateString (p0 @ ''-Jan-'' @ p2) =
      dateUTC (jadd (Fin 2000) (parseInt10 p2)) (Fin 0) (parseInt10 p0)"
    using parseDateString_three [OF splitOn_january [OF nd]] by (simp only: monthOf_Jan)
  moreover have "parseDateString s \<noteq> Fin 0"
    using assms(1) by (intro three_segments_not_sentinel) simp
  ultimately show ?thesis using unknown_month_key [OF assms] by simp
qed

theorem unknown_month_january_witness:
  "splitOn (CHR ''-'') ''05-Xyz-25'' = [''05'', ''Xyz'', ''25'']
   \<and> ''Xyz'' \<notin> set monthNames \<and> ''Xyz'' \<notin> set inheritedNames
   \<and> parseDateString ''05-Xyz-25'' = parseDateString ''05-Jan-25''
   \<and> parseDateString ''05-Xyz-25'' = Fin 1736035200000"
proof -
  from unknown_month_january [OF unknown_month_samples(4,5,6)]
  have "parseDateString ''05-Xyz-25'' = parseDateString (''05'' @ ''-Jan-'' @ ''25'')" by blast
  then have "parseDateString ''05-Xyz-25'' = parseDateString ''05-Jan-25''" by simp
  then show ?thesis by (simp only: unknown_month_samples simp_thms)
qed

text \<open>
  A middle segment that names a property every object inherits is found by the lookup:
  the fallback to month 0 is not taken and the key is NaN.
\<close>

lemma inherited_month_name:
  "splitOn (CHR ''-'') ''01-constructor-25'' = [''01'', ''constructor'', ''25'']
   \<and> ''constructor'' \<notin> set monthNames
   \<and> parseDateString ''01-constructor-25'' = NaN
   \<and> parseDateString ''01-Jan-25'' = Fin 1735689600000"
  by (simp only: unknown_month_samples simp_thms)

section \<open>The statistics of a date\<close>

lemma strictEq_truthy: "strictEq a b \<Longrightarrow> truthy a \<longleftrightarrow> truthy b"
  by (cases a; cases b) auto

lemma processPlantData_date_truthy: "truthy (date (processPlantData raw))"
  by (simp add: processPlantData_def Let_def jsOr_def)

lemma validData_no_selection:
  assumes "\<forall>d \<in> set dataset. truthy (date d)" "\<not> truthy sel"
  shows "validData dataset sel = []"
  using assms strictEq_truthy by (auto simp: validData_def filter_empty_conv)

lemma set_validData:
  "d \<in> set (validData dataset sel) \<longleftrightarrow>
     d \<in> set dataset \<and> jgt (sec d) (Fin 0) \<and> strictEq (date d) sel"
  by (auto simp: validData_def)

lemma not_jlt_trans:
  assumes "jgt a (Fin 0)" "jgt b (Fin 0)" "jgt c (Fin 0)" "\<not> jlt b a" "\<not> jlt c b"
  shows "\<not> jlt c a"
  using assms by (cases a; cases b; cases c) (simp_all add: jgt_def)

lemma not_jlt_total:
  assumes "jgt a (Fin 0)" "jgt b (Fin 0)" "jlt a b"
  shows "\<not> jlt b a"
  using assms by (cases a; cases b) (simp_all add: jgt_def)

lemma scan_min_max:
  assumes "\<forall>d \<in> set xs. jgt (sec d) (Fin 0)" "jgt (sec mn) (Fin 0)" "jgt (sec mx) (Fin 0)"
    "foldl scanStep (mn, mx) xs = (mn', mx')"
  shows "mn' \<in> set (mn # xs) \<and> mx' \<in> set (mx # xs)
       \<and> \<not> jlt (sec mn) (sec mn') \<and> (\<forall>d \<in> set xs. \<not> jlt (sec d) (sec mn'))
       \<and> \<not> jlt (sec mx') (sec mx) \<and> (\<forall>d \<in> set xs. \<not> jlt (sec mx') (sec d))"
  using assms
proof (induction xs arbitrary: mn mx)
  case Nil
  then show ?case by (simp add: jlt_irrefl)
next
  case (Cons x xs)
  define mn1 where "mn1 = (if jlt (sec x) (sec mn) then x else mn)"
  define mx1 where "mx1 = (if jgt (sec x) (sec mx) then x else mx)"
  have "scanStep (mn, mx) x = (mn1, mx1)"
    by (simp add: scanStep_def mn1_def mx1_def Let_def)
  then have step: "foldl scanStep (mn1, mx1) xs = (mn', mx')"
    using Cons.prems(4) by simp
  have pos: "jgt (sec x) (Fin 0)" "\<forall>d \<in> set xs. jgt (sec d) (Fin 0)"
    using Cons.prems(1) by simp_all
  have p1: "jgt (sec mn1) (Fin 0)" "jgt (sec mx1) (Fin 0)"
    using pos(1) Cons.prems(2,3) by (simp_all add: mn1_def mx1_def)
  from Cons.IH [OF pos(2) p1 step]
  have ih: "mn' \<in> set (mn1 # xs)" "mx' \<in> set (mx1 # xs)"
    "\<not> jlt (sec mn1) (sec mn')" "\<forall>d \<in> set xs. \<not> jlt (sec d) (sec mn')"
    "\<not> jlt (sec mx') (sec mx1)" "\<forall>d \<in> set xs. \<not> jlt (sec mx') (sec d)"
    by simp_all
  have mem: "mn' \<in> set (mn # x # xs)" "mx' \<in> set (mx # x # xs)"
    using ih(1,2) by (auto simp: mn1_def mx1_def split: if_splits)
  have pmn': "jgt (sec mn') (Fin 0)" and pmx': "jgt (sec mx') (Fin 0)"
    using mem Cons.prems(1,2,3) by auto
  have a1: "\<not> jlt (sec mn) (sec mn1)" "\<not> jlt (sec x) (sec mn1)"
    using not_jlt_total [OF pos(1) Cons.prems(2)]
    by (auto simp: mn1_def jlt_irrefl)
  have a2: "\<not> jlt (sec mx1) (sec mx)" "\<not> jlt (sec mx1) (sec x)"
    using not_jlt_total [OF Cons.prems(3) pos(1)]
    by (auto simp: mx1_def jlt_irrefl jgt_def)
  have b1: "\<not> jlt (sec mn) (sec mn')"
    using not_jlt_trans [OF pmn' p1(1) Cons.prems(2) ih(3) a1(1)] .
  have b2: "\<not> jlt (sec x) (sec mn')"
    using not_jlt_trans [OF pmn' p1(1) pos(1) ih(3) a1(2)] .
  have b3: "\<not> jlt (sec mx') (sec mx)"
    using not_jlt_trans [OF Cons.prems(3) p1(2) pmx' a2(1) ih(5)] .
  have b4: "\<not> jlt (sec mx') (sec x)"
    using not_jlt_trans [OF pos(1) p1(2) pmx' a2(2) ih(5)] .
  show ?case using mem b1 b2 b3 b4 ih(4,6) by simp
qed

lemma secStats_some:
  assumes "truthy sel" "validData dataset sel \<noteq> []"
  shows "\<exists>mn mx. secStats dataset sel = Some (mn, mx)
            \<and> mn \<in> set (validData dataset sel) \<and> mx \<in> set (validData dataset sel)
            \<and> (\<forall>d \<in> set (validData dataset sel).
                  \<not> jlt (sec d) (sec mn) \<and> \<not> jgt (sec d) (sec mx))"
proof -
  from assms(2) obtain v vs where vd: "validData dataset sel = v # vs"
    by (cases "validData dataset sel") auto
  obtain mn mx where f: "foldl scanStep (v, v) (v # vs) = (mn, mx)"
    by (cases "foldl scanStep (v, v) (v # vs)") auto
  have pos: "\<forall>d \<in> set (v # vs). jgt (sec d) (Fin 0)"
    using vd set_validData [of _ dataset sel] by auto
  then have pv: "jgt (sec v) (Fin 0)" by simp
  from scan_min_max [OF pos pv pv f]
  have "mn \<in> set (v # vs)" "mx \<in> set (v # vs)"
    "\<forall>d \<in> set (v # vs). \<not> jlt (sec d) (sec mn)"
    "\<forall>d \<in> set (v # vs). \<not> jlt (sec mx) (sec d)"
    by auto
  moreover have "secStats dataset sel = Some (mn, mx)"
    using assms(1) vd f by (simp add: secStats_def)
  ultimately show ?thesis unfolding vd jgt_def by blast
qed

text \<open>
  Claim C9. For every dataset and selected date (a date is selected, or every record
  has a date, as every record \<open>processPlantData\<close> makes has), the statistic keeps the
  records whose date equals the selected date and whose \<open>sec\<close> is above zero. If none
  is left it returns the no-data result; otherwise it returns two of the kept records,
  no kept record having a smaller \<open>sec\<close> than the first nor a larger one than the second.
\<close>

theorem secStats_min_max:
  assumes "truthy sel \<or> (\<forall>d \<in> set dataset. truthy (date d))"
  shows "(\<forall>d. d \<in> set (validData dataset sel) \<longleftrightarrow>
              d \<in> set dataset \<and> jgt (sec d) (Fin 0) \<and> strictEq (date d) sel)
       \<and> (validData dataset sel = [] \<longrightarrow> secStats dataset sel = None)
       \<and> (validData dataset sel \<noteq> [] \<longrightarrow>
            (\<exists>mn mx. secStats dataset sel = Some (mn, mx)
               \<and> mn \<in> set (validData dataset sel) \<and> mx \<in> set (validData dataset sel)
               \<and> (\<forall>d \<in> set (validData dataset sel).
                     \<not> jlt (sec d) (sec mn) \<and> \<not> jgt (sec d) (sec mx))))"
proof -
  have a: "validData dataset sel = [] \<longrightarrow> secStats dataset sel = None"
    by (simp add: secStats_def)
  have "truthy sel" if "validData dataset sel \<noteq> []"
    using that assms validData_no_selection [of dataset sel] by blast
  then have b: "validData dataset sel \<noteq> [] \<longrightarrow>
            (\<exists>mn mx. secStats dataset sel = Some (mn, mx)
               \<and> mn \<in> set (validData dataset sel) \<and> mx \<in> set (validData dataset sel)
               \<and> (\<forall>d \<in> set (validData dataset sel).
                     \<not> jlt (sec d) (sec mn) \<and> \<not> jgt (sec d) (sec mx)))"
    using secStats_some [of sel dataset] by blast
  from a b set_validData [of _ dataset sel] show ?thesis by blast
qed

lemma statsData_dates: "\<forall>d \<in> set statsData. truthy (date d)"
  by (simp add: statsData_def statRecord_def)

lemma statsData_first:
  "validData statsData (VStr ''01-Oct-25'') =
     [statRecord ''A'' ''01-Oct-25'' (1 / 2), statRecord ''C'' ''01-Oct-25'' (1 / 5)]"
  by (simp add: statsData_def statRecord_def validData_def jgt_def)

lemma statsData_second: "validData statsData (VStr ''02-Oct-25'') = []"
  by (simp add: statsData_def statRecord_def validData_def jgt_def)

lemma statsData_result:
  "secStats statsData (VStr ''01-Oct-25'') =
     Some (statRecord ''C'' ''01-Oct-25'' (1 / 5), statRecord ''A'' ''01-Oct-25'' (1 / 2))"
  unfolding secStats_def statsData_first
  by (simp add: scanStep_def statRecord_def jgt_def)

theorem secStats_min_max_witness:
  "list_all (\<lambda>d. truthy (date d)) statsData
   \<and> validData statsData (VStr ''01-Oct-25'') \<noteq> []
   \<and> secStats statsData (VStr ''01-Oct-25'') =
       Some (statRecord ''C'' ''01-Oct-25'' (1 / 5), statRecord ''A'' ''01-Oct-25'' (1 / 2))
   \<and> validData statsData (VStr ''02-Oct-25'') = []
   \<and> secStats statsData (VStr ''02-Oct-25'') = None"
proof -
  from secStats_min_max [of "VStr ''02-Oct-25''" statsData] statsData_dates statsData_second
  have "secStats statsData (VStr ''02-Oct-25'') = None" by blast
  then show ?thesis
    using statsData_dates statsData_second statsData_result
    by (simp add: statsData_first list_all_iff)
qed

section \<open>Uploads that fail\<close>

lemma upload_parse_failure:
  "handleFileUpload tz st (Some ParseThrows) = st\<lparr>allData := []\<rparr>"
  "handleFileUpload tz st (Some NoData) = st\<lparr>allData := []\<rparr>"
  by (simp_all add: handleFileUpload_def)

lemma upload_reader_error:
  "handleFileUpload tz st (Some ReaderError) = st\<lparr>alerts := alerts st @ [uploadErrorNotice]\<rparr>"
  by (simp add: handleFileUpload_def)

lemma upload_sheet:
  "allData (handleFileUpload tz st (Some (Sheet rows))) =
     map processPlantData (map (normalizeRow tz) rows)"
  by (simp add: handleFileUpload_def Let_def split: sum.splits)

text \<open>
  Claim C5, as stated: when reading an unparseable or corrupt file fails, the previously
  active dataset remains the active one. It does not when the decoder throws:
  \<open>readDataFile\<close> resolves to the empty list, which the handler stores over the data
  it had, and no notice is raised.
\<close>

theorem parse_failure_clears_data:
  "allData loadedState \<noteq> []
   \<and> allData (handleFileUpload 0 loadedState (Some ParseThrows)) = []
   \<and> alerts (handleFileUpload 0 loadedState (Some ParseThrows)) = []"
  by (simp add: upload_parse_failure loadedState_def)

text \<open>
  Claim C5, amended. No partial dataset is ever stored: after an upload the data is
  the previous one, the empty list, or the complete list of the processed rows of the
  sheet. When the file reader fails the state is unchanged but for the failure notice,
  and the previous dataset remains the active one; when decoding throws or the reader
  yields no data, the stored dataset is empty and the rest of the state is unchanged.
\<close>

theorem upload_outcomes:
  "handleFileUpload tz st None = st
   \<and> handleFileUpload tz st (Some ReaderError) = st\<lparr>alerts := alerts st @ [uploadErrorNotice]\<rparr>
   \<and> handleFileUpload tz st (Some ParseThrows) = st\<lparr>allData := []\<rparr>
   \<and> handleFileUpload tz st (Some NoData) = st\<lparr>allData := []\<rparr>
   \<and> allData (handleFileUpload tz st (Some (Sheet rows))) =
       map processPlantData (map (normalizeRow tz) rows)"
  using upload_parse_failure [of tz st] upload_reader_error [of tz st] upload_sheet [of tz st rows]
  by (simp add: handleFileUpload_def)

section \<open>Serial dates\<close>

lemma jgt_truthy: "jgt n (Fin 30000) \<Longrightarrow> truthy (VNum n)"
  by (cases n) (auto simp: jgt_def)

lemma normalizeRow_number:
  assumes "r ''Date'' = VNum n"
  shows "normalizeRow tz r =
           (if jgt n (Fin 30000)
            then r(''Date'' := VStr (formatDate tz (newDate (serialMoment n)))) else r)"
  using assms jgt_truthy [of n] by (simp add: normalizeRow_def)


lemma serialMoment_finite:
  "serialMoment (Fin s) =
     Fin (of_int (\<lfloor>(s - 25569) * 86400 * 1000 + 1 / 2\<rfloor> + 12 * 60 * 60 * 1000))"
  by (simp add: serialMoment_def jsub_def twelveHours_def)


text \<open>
  Noon of a day stays within that day for every offset of less than twelve hours: an
  integer serial gets the date of its own day wherever the file is read.
\<close>

lemma serial_noon_same_day:
  assumes "- 720 \<le> tz" "tz < 720"
  shows "localDay tz (of_int (k * msPerDay + 12 * 60 * 60 * 1000)) = k"
proof -
  have "(k * 86400000 + 43200000 + tz * 60000) div 86400000 = k"
  proof -
    have "0 \<le> 43200000 + tz * 60000" "43200000 + tz * 60000 < 86400000"
      using assms by simp_all
    then have "(43200000 + tz * 60000) div 86400000 = 0" by simp
    moreover have "(k * 86400000 + (43200000 + tz * 60000)) div 86400000 =
        k + (43200000 + tz * 60000) div 86400000"
      by (rule div_mult_self3) simp
    ultimately show ?thesis by (simp add: add.assoc)
  qed
  then show ?thesis by (simp only: localDay_def msPerDay_def floor_of_int)
qed

lemma serialMoment_integer:
  "serialMoment (Fin (of_int k)) = Fin (of_int ((k - 25569) * msPerDay + 12 * 60 * 60 * 1000))"
proof -
  have "(of_int k - 25569) * 86400 * 1000 + 1 / 2 = (of_int ((k - 25569) * 86400000) :: real) + 1 / 2"
    by simp
  then have "\<lfloor>(of_int k - 25569) * 86400 * 1000 + 1 / 2 :: real\<rfloor> = (k - 25569) * 86400000"
    by (simp only: floor_add_int [symmetric] ) linarith
  then show ?thesis
    by (simp only: serialMoment_finite msPerDay_def)
qed

text \<open>
  An integer serial within the range of \<open>Date\<close>, read at an offset of less than twelve
  hours from UTC, becomes the text of the calendar date of day \<open>serial - 25569\<close>.
\<close>

lemma integer_serial_date:
  assumes "r ''Date'' = VNum (Fin (of_int k))" "30000 < k" "k \<le> 100000000"
    "- 720 \<le> tz" "tz < 720"
  shows "normalizeRow tz r = r(''Date'' := VStr (formatYMD (civilFromDays (k - 25569))))"
proof -
  have gt: "jgt (Fin (of_int k)) (Fin 30000)" using assms(2) by (simp add: jgt_def)
  define t where "t = (k - 25569) * msPerDay + 12 * 60 * 60 * 1000"
  have rng: "\<bar>t\<bar> \<le> 8640000000000000" using assms(2,3) by (simp add: t_def msPerDay_def)
  have "newDate (serialMoment (Fin (of_int k))) = timeClip (truncR (of_int t))"
    by (simp only: serialMoment_integer t_def newDate.simps)
  also have "\<dots> = Fin (of_int t)" using rng by (simp add: truncR_of_int timeClip_def)
  finally have nd: "newDate (serialMoment (Fin (of_int k))) = Fin (of_int t)" .
  have "localDay tz (of_int t) = k - 25569"
    unfolding t_def using assms(4,5) by (rule serial_noon_same_day)
  then have "formatDate tz (Fin (of_int t)) = formatYMD (civilFromDays (k - 25569))"
    by simp
  then show ?thesis
    using normalizeRow_number [of r "Fin (of_int k)" tz] assms(1) gt nd by simp
qed




end
